theory Spec2Isabelle
  imports Main
begin

section \<open>Text primitives of the host language\<close>

text \<open>
  The program is a Python text rewriter.  A Python \<open>str\<close> is modelled as a \<^typ>\<open>string\<close>,
  one \<^typ>\<open>char\<close> per code point; the model covers texts whose code points are below 256
  (ASCII and Latin-1), which is where the character classes below are stated.
\<close>

text \<open>\<open>str.isspace\<close> on one character, which is also the class \<open>\s\<close> of \<open>re\<close>:
  code points 9-13, 28-32, 133 and 160.\<close>

definition isspace :: "char \<Rightarrow> bool" where
  "isspace c \<longleftrightarrow> c \<in> set [CHR 0x09, CHR 0x0A, CHR 0x0B, CHR 0x0C, CHR 0x0D,
     CHR 0x1C, CHR 0x1D, CHR 0x1E, CHR 0x1F, CHR 0x20, CHR 0x85, CHR 0xA0]"

text \<open>The class \<open>\w\<close> of \<open>re\<close> for \<open>str\<close> patterns: \<open>str.isalnum\<close> or the underscore.\<close>

definition isword :: "char \<Rightarrow> bool" where
  "isword c \<longleftrightarrow> (let n = (of_char c :: nat) in
     (48 \<le> n \<and> n \<le> 57) \<or> (65 \<le> n \<and> n \<le> 90) \<or> n = 95 \<or> (97 \<le> n \<and> n \<le> 122)
     \<or> n = 170 \<or> n = 178 \<or> n = 179 \<or> n = 181 \<or> n = 185 \<or> n = 186
     \<or> (188 \<le> n \<and> n \<le> 190) \<or> (192 \<le> n \<and> n \<le> 214) \<or> (216 \<le> n \<and> n \<le> 246)
     \<or> (248 \<le> n \<and> n \<le> 255))"

text \<open>The line boundaries of \<open>str.splitlines\<close> other than the pair CR LF.\<close>

definition islinebreak :: "char \<Rightarrow> bool" where
  "islinebreak c \<longleftrightarrow> c \<in> set [CHR 0x0A, CHR 0x0B, CHR 0x0C, CHR 0x0D,
     CHR 0x1C, CHR 0x1D, CHR 0x1E, CHR 0x85]"

text \<open>\<open>s.splitlines(keepends=True)\<close>: every line keeps its terminator, CR LF is one
  terminator, and a text that does not end in a terminator has a last unterminated line.\<close>

fun splitlines :: "string \<Rightarrow> string list" where
  "splitlines [] = []"
| "splitlines [c] = [[c]]"
| "splitlines (c # d # cs) =
     (if c = CHR 0x0D \<and> d = CHR 0x0A then [c, d] # splitlines cs
      else if islinebreak c then [c] # splitlines (d # cs)
      else (case splitlines (d # cs) of [] \<Rightarrow> [[c]] | l # ls \<Rightarrow> (c # l) # ls))"

text \<open>\<open>s.strip()\<close>: whitespace removed at both ends.\<close>

definition strip :: "string \<Rightarrow> string" where
  "strip s = rev (dropWhile isspace (rev (dropWhile isspace s)))"

text \<open>\<open>s.startswith(p)\<close>.\<close>

fun startswith :: "string \<Rightarrow> string \<Rightarrow> bool" where
  "startswith s [] = True"
| "startswith [] (p # ps) = False"
| "startswith (c # cs) (p # ps) = (c = p \<and> startswith cs ps)"

text \<open>\<open>p in s\<close> for strings: \<open>p\<close> occurs in \<open>s\<close> as a substring.\<close>

fun contains :: "string \<Rightarrow> string \<Rightarrow> bool" where
  "contains [] p = (p = [])"
| "contains (c # cs) p = (startswith (c # cs) p \<or> contains cs p)"

text \<open>The first occurrence of \<open>p\<close> in \<open>s\<close>: the text before it and the text after it.
  This is what a lazy \<open>(.*?)\<close> followed by the literal \<open>p\<close> matches under \<open>re.DOTALL\<close>.\<close>

fun find_split :: "string \<Rightarrow> string \<Rightarrow> (string \<times> string) option" where
  "find_split p [] = (if p = [] then Some ([], []) else None)"
| "find_split p (c # cs) =
     (if startswith (c # cs) p then Some ([], drop (length p) (c # cs))
      else map_option (\<lambda>(b, a). (c # b, a)) (find_split p cs))"

text \<open>\<open>s.split(c)\<close> for a one-character separator: never empty.\<close>

fun split_char :: "char \<Rightarrow> string \<Rightarrow> string list" where
  "split_char c [] = [[]]"
| "split_char c (x # xs) =
     (if x = c then [] # split_char c xs
      else (case split_char c xs of [] \<Rightarrow> [[x]] | l # ls \<Rightarrow> (x # l) # ls))"

text \<open>\<open>s.split(c, 1)\<close> when \<open>c\<close> occurs in \<open>s\<close>: the parts before and after the first \<open>c\<close>.\<close>

definition split_once :: "char \<Rightarrow> string \<Rightarrow> string \<times> string" where
  "split_once c s = (takeWhile (\<lambda>x. x \<noteq> c) s, drop 1 (dropWhile (\<lambda>x. x \<noteq> c) s))"

text \<open>\<open>sep.join(xs)\<close>.\<close>

fun join :: "string \<Rightarrow> string list \<Rightarrow> string" where
  "join sep [] = []"
| "join sep [x] = x"
| "join sep (x # y # ys) = x @ sep @ join sep (y # ys)"

text \<open>\<open>str(i)\<close> for an integer: decimal digits, a minus sign when negative.\<close>

definition digit_char :: "nat \<Rightarrow> char" where
  "digit_char d = char_of (48 + d)"

fun str_nat :: "nat \<Rightarrow> string" where
  "str_nat n = (if n < 10 then [digit_char n] else str_nat (n div 10) @ [digit_char (n mod 10)])"

declare str_nat.simps [simp del]

definition str_int :: "int \<Rightarrow> string" where
  "str_int i = (if i < 0 then CHR ''-'' # str_nat (nat (- i)) else str_nat (nat i))"

text \<open>\<open>xs.insert(i, x)\<close> for \<open>0 \<le> i\<close>: past the end it appends.\<close>

definition list_insert :: "nat \<Rightarrow> 'a \<Rightarrow> 'a list \<Rightarrow> 'a list" where
  "list_insert i x xs = take i xs @ [x] @ drop i xs"

text \<open>The slice \<open>xs[i:j]\<close> for \<open>0 \<le> i\<close>, \<open>0 \<le> j\<close>.\<close>

definition slice :: "nat \<Rightarrow> nat \<Rightarrow> 'a list \<Rightarrow> 'a list" where
  "slice i j xs = take (j - i) (drop i xs)"

section \<open>Errors\<close>

text \<open>Every failure of the program is a Python \<open>ValueError\<close>; the constructors name the
  raise sites, which differ by their message.\<close>

datatype error =
    ModuleNotFound string
  | NoVarSection
  | NoAssignSection
  | AssignmentNotFound string
  | UnsupportedFaultTypes "string set"

section \<open>Data model (\<open>xml_parser.py\<close>)\<close>

text \<open>\<open>Fault\<close>: the Python fields \<open>type\<close>, \<open>variable\<close> and \<open>value\<close>.\<close>

record Fault =
  fault_type :: string
  variable :: string
  fault_value :: string

record FaultModel =
  model_file :: string
  target_module :: string
  redundancy :: int
  faults :: "Fault list"

section \<open>Module Locator (\<open>smv_utils.find_module\<close>)\<close>

text \<open>The scan shared by \<open>find_module\<close> and \<open>_find_section_start\<close>: the index of the
  first line whose stripped text starts with \<open>key\<close>.\<close>

fun first_line_with :: "string \<Rightarrow> string list \<Rightarrow> nat option" where
  "first_line_with key [] = None"
| "first_line_with key (l # ls) =
     (if startswith (strip l) key then Some 0 else map_option Suc (first_line_with key ls))"

definition find_module :: "string \<Rightarrow> string \<Rightarrow> error + (nat \<times> nat)" where
  "find_module content module_name =
     (let lines = splitlines content in
      case first_line_with (''MODULE '' @ module_name) lines of
        None \<Rightarrow> Inl (ModuleNotFound module_name)
      | Some start \<Rightarrow>
          (case first_line_with ''MODULE '' (drop (start + 1) lines) of
             Some k \<Rightarrow> Inr (start, start + 1 + k)
           | None \<Rightarrow> Inr (start, length lines)))"

section \<open>The stuck-at injector (\<open>faults_injector.StuckAtInjector\<close>)\<close>

text \<open>The object holds the fault list only, so each method takes the list.\<close>

subsection \<open>Fault Mode Synthesizer\<close>

fun enum_modes :: "string list \<Rightarrow> Fault list \<Rightarrow> string list" where
  "enum_modes modes [] = modes"
| "enum_modes modes (fault # rest) =
     (let mode_name = ''stuck_'' @ fault_value fault
      in enum_modes (if mode_name \<in> set modes then modes else modes @ [mode_name]) rest)"

definition get_fault_mode_enum :: "Fault list \<Rightarrow> string" where
  "get_fault_mode_enum fs = join '', '' (enum_modes [''none''] fs)"

subsection \<open>Section Finder and insert position\<close>

definition find_section_start :: "string list \<Rightarrow> string \<Rightarrow> nat option" where
  "find_section_start lines keyword = first_line_with keyword lines"

text \<open>The loop of \<open>_find_insert_position_for_next_fault_mode\<close> over the lines from index
  \<open>i\<close> on, with the running \<open>last_init_idx\<close>.\<close>

fun insert_position_loop :: "string list \<Rightarrow> nat \<Rightarrow> nat \<Rightarrow> nat" where
  "insert_position_loop [] i last_init_idx = last_init_idx + 1"
| "insert_position_loop (l # ls) i last_init_idx =
     (if contains l ''init('' then insert_position_loop ls (i + 1) i
      else if contains l ''next('' then i
      else insert_position_loop ls (i + 1) last_init_idx)"

definition find_insert_position_for_next_fault_mode :: "string list \<Rightarrow> nat \<Rightarrow> nat" where
  "find_insert_position_for_next_fault_mode lines assign_idx =
     insert_position_loop (drop (assign_idx + 1) lines) (assign_idx + 1) assign_idx"

subsection \<open>Declaration Injector\<close>

definition fault_mode_decl :: "Fault list \<Rightarrow> string" where
  "fault_mode_decl fs = ''    fault_mode : {'' @ get_fault_mode_enum fs @ ''};\<newline>''"

definition init_fault :: string where
  "init_fault = ''    init(fault_mode) := none;\<newline>\<newline>''"

definition generate_next_fault_mode :: "Fault list \<Rightarrow> string" where
  "generate_next_fault_mode fs =
     ''    next(fault_mode) :=\<newline>'' @
     ''        case\<newline>'' @
     ''            fault_mode = none :\<newline>'' @
     ''                {'' @ get_fault_mode_enum fs @ ''};\<newline>'' @
     ''            TRUE :\<newline>'' @
     ''                fault_mode;\<newline>'' @
     ''        esac;\<newline>''"

text \<open>Lines 34 to 57 of \<open>inject_into_module\<close>: the three insertions into the line list.\<close>

definition inject_declarations :: "Fault list \<Rightarrow> string \<Rightarrow> error + string list" where
  "inject_declarations fs module_text =
     (let lines = splitlines module_text in
      case find_section_start lines ''VAR'' of
        None \<Rightarrow> Inl NoVarSection
      | Some var_idx \<Rightarrow>
          (let lines1 = list_insert (var_idx + 1) (fault_mode_decl fs) lines in
           case find_section_start lines1 ''ASSIGN'' of
             None \<Rightarrow> Inl NoAssignSection
           | Some assign_idx \<Rightarrow>
               (let lines2 = list_insert (assign_idx + 1) init_fault lines1;
                    insert_pos = find_insert_position_for_next_fault_mode lines2 assign_idx
                in Inr (list_insert insert_pos (generate_next_fault_mode fs) lines2))))"

subsection \<open>Assignment Rewriter\<close>

text \<open>The pattern \<open>(next\(V\)\s*:=\s*case)\<close> tried at the head of \<open>s\<close>: the text of the
  group and the text after it.  A whitespace run is followed by a character that is not
  whitespace, so the greedy runs never give a character back.\<close>

definition match_next_header :: "string \<Rightarrow> string \<Rightarrow> (string \<times> string) option" where
  "match_next_header v s =
     (let lit = ''next('' @ v @ '')'' in
      if \<not> startswith s lit then None
      else let r1 = drop (length lit) s; w1 = takeWhile isspace r1; r2 = dropWhile isspace r1 in
      if \<not> startswith r2 '':='' then None
      else let r3 = drop 2 r2; w2 = takeWhile isspace r3; r4 = dropWhile isspace r3 in
      if \<not> startswith r4 ''case'' then None
      else Some (lit @ w1 @ '':='' @ w2 @ ''case'', drop 4 r4))"

text \<open>The whole pattern \<open>(next\(V\)\s*:=\s*case)(.*?)(esac;)\<close> with \<open>re.DOTALL\<close> at the head
  of \<open>s\<close>: groups 1 and 2 and the text after the match.\<close>

definition match_next_case :: "string \<Rightarrow> string \<Rightarrow> (string \<times> string \<times> string) option" where
  "match_next_case v s =
     (case match_next_header v s of
        None \<Rightarrow> None
      | Some (prefix, r) \<Rightarrow>
          (case find_split ''esac;'' r of
             None \<Rightarrow> None
           | Some (original_cases, post) \<Rightarrow> Some (prefix, original_cases, post)))"

text \<open>\<open>re.search\<close>: the leftmost start at which the pattern matches; the text before the
  match, groups 1 and 2, and the text after the match.\<close>

fun search_next_case :: "string \<Rightarrow> string \<Rightarrow> (string \<times> string \<times> string \<times> string) option" where
  "search_next_case v [] = None"
| "search_next_case v (c # cs) =
     (case match_next_case v (c # cs) of
        Some (prefix, original_cases, post) \<Rightarrow> Some ([], prefix, original_cases, post)
      | None \<Rightarrow> map_option (\<lambda>(pre, m). (c # pre, m)) (search_next_case v cs))"

definition fault_case :: "Fault \<Rightarrow> string" where
  "fault_case fault =
     ''        fault_mode = '' @ (''stuck_'' @ fault_value fault) @ '' : '' @ fault_value fault
       @ '';\<newline>''"

definition inject_into_next_assignment :: "string \<Rightarrow> string \<Rightarrow> Fault list \<Rightarrow> error + string" where
  "inject_into_next_assignment text v fs =
     (case search_next_case v text of
        None \<Rightarrow> Inl (AssignmentNotFound v)
      | Some (pre, prefix, original_cases, post) \<Rightarrow>
          (let fault_cases = ''\<newline>'' @ concat (map fault_case fs);
               new_assignment = prefix @ fault_cases @ original_cases @ ''    '' @ ''esac;''
           in Inr (pre @ new_assignment @ post)))"

text \<open>\<open>faults_by_var\<close> is a dictionary in insertion order: an association list.\<close>

definition add_fault :: "(string \<times> Fault list) list \<Rightarrow> Fault \<Rightarrow> (string \<times> Fault list) list" where
  "add_fault d fault =
     (let d1 = (if variable fault \<in> fst ` set d then d else d @ [(variable fault, [])])
      in map (\<lambda>(k, fl). if k = variable fault then (k, fl @ [fault]) else (k, fl)) d1)"

definition faults_by_var :: "Fault list \<Rightarrow> (string \<times> Fault list) list" where
  "faults_by_var fs = foldl add_fault [] fs"

fun inject_each :: "(string \<times> Fault list) list \<Rightarrow> string \<Rightarrow> error + string" where
  "inject_each [] module_text = Inr module_text"
| "inject_each ((v, var_faults) # rest) module_text =
     (case inject_into_next_assignment module_text v var_faults of
        Inl e \<Rightarrow> Inl e
      | Inr t \<Rightarrow> inject_each rest t)"

definition inject_fault_conditions :: "Fault list \<Rightarrow> string \<Rightarrow> error + string" where
  "inject_fault_conditions fs module_text = inject_each (faults_by_var fs) module_text"

definition inject_into_module :: "Fault list \<Rightarrow> string \<Rightarrow> error + string" where
  "inject_into_module fs module_text =
     (case inject_declarations fs module_text of
        Inl e \<Rightarrow> Inl e
      | Inr lines \<Rightarrow> inject_fault_conditions fs (concat lines))"

subsection \<open>Guard Protector\<close>

definition protect_line :: "string \<Rightarrow> string" where
  "protect_line line =
     (if contains line ''!request_toggle'' \<and> contains line '':'' then
        (let (p0, p1) = split_once CHR '':'' line;
             condition = strip p0;
             action = strip p1;
             new_condition = ''fault_mode = none &\<newline>        '' @ condition
         in ''        '' @ new_condition @ '' : '' @ action @ ''\<newline>'')
      else line @ ''\<newline>'')"

definition protect_toggle_logic :: "string \<Rightarrow> string" where
  "protect_toggle_logic module_text =
     (case search_next_case ''request_toggle'' module_text of
        None \<Rightarrow> module_text
      | Some (pre, prefix, original_cases, post) \<Rightarrow>
          (let new_cases = map protect_line (split_char CHR ''\<newline>'' original_cases);
               new_assignment = prefix @ concat new_cases @ ''    '' @ ''esac;''
           in pre @ new_assignment @ post))"

section \<open>The engine (\<open>faults_injector.FaultInjectionEngine\<close>)\<close>

record FaultInjectionEngine =
  fault_model :: FaultModel
  injector :: "Fault list"

definition create_injector :: "FaultModel \<Rightarrow> error + Fault list" where
  "create_injector fm =
     (let fault_types = set (map fault_type (faults fm)) in
      if fault_types = {''stuck-at''} then Inr (faults fm)
      else Inl (UnsupportedFaultTypes fault_types))"

text \<open>The constructor \<open>FaultInjectionEngine(fault_model)\<close>.\<close>

definition new_engine :: "FaultModel \<Rightarrow> error + FaultInjectionEngine" where
  "new_engine fm =
     (case create_injector fm of
        Inl e \<Rightarrow> Inl e
      | Inr stuck_at \<Rightarrow> Inr \<lparr>fault_model = fm, injector = stuck_at\<rparr>)"

definition inject :: "FaultInjectionEngine \<Rightarrow> string \<Rightarrow> error + string" where
  "inject eng smv_content =
     (case find_module smv_content (target_module (fault_model eng)) of
        Inl e \<Rightarrow> Inl e
      | Inr (start_idx, end_idx) \<Rightarrow>
          (let lines = splitlines smv_content;
               module_text = concat (slice start_idx end_idx lines)
           in case inject_into_module (injector eng) module_text of
                Inl e \<Rightarrow> Inl e
              | Inr modified_module \<Rightarrow>
                  Inr (concat (take start_idx lines) @ protect_toggle_logic modified_module
                       @ concat (drop end_idx lines))))"

subsection \<open>Redundancy Replicator\<close>

text \<open>\<open>re.match\<close> of \<open>(\s*)(\w+)\s*:\s*process\s+(\w+)\((.*?)\);\<close> on a line: the groups
  indent, instance name, module name and parameters.  The classes that meet are disjoint,
  so the greedy runs never give a character back; the lazy \<open>(.*?)\<close> stops at the first
  \<open>);\<close> and, without \<open>re.DOTALL\<close>, may not cross a line feed.\<close>

definition match_instance :: "string \<Rightarrow> (string \<times> string \<times> string \<times> string) option" where
  "match_instance line =
     (let indent = takeWhile isspace line; r1 = dropWhile isspace line;
          instance_name = takeWhile isword r1; r2 = dropWhile isword r1 in
      if instance_name = [] then None
      else let r3 = dropWhile isspace r2 in
      if \<not> startswith r3 '':'' then None
      else let r4 = dropWhile isspace (drop 1 r3) in
      if \<not> startswith r4 ''process'' then None
      else let r5 = drop 7 r4; r6 = dropWhile isspace r5 in
      if takeWhile isspace r5 = [] then None
      else let module_name = takeWhile isword r6; r7 = dropWhile isword r6 in
      if module_name = [] \<or> \<not> startswith r7 ''('' then None
      else (case find_split '');'' (drop 1 r7) of
              None \<Rightarrow> None
            | Some (params, rest) \<Rightarrow>
                if CHR ''\<newline>'' \<in> set params then None
                else Some (indent, instance_name, module_name, params)))"

definition new_instance :: "string \<Rightarrow> string \<Rightarrow> string \<Rightarrow> string \<Rightarrow> int \<Rightarrow> string" where
  "new_instance indent instance_name module_name params i =
     indent @ instance_name @ ''_'' @ str_int i @ '' : process '' @ module_name
       @ ''('' @ params @ '');\<newline>''"

text \<open>The loop over \<open>nominal_lines\<close>, with the state \<open>(new_nominal, found_target)\<close>.\<close>

fun replicate_loop ::
  "string \<Rightarrow> int \<Rightarrow> string list \<Rightarrow> string list \<times> bool \<Rightarrow> string list \<times> bool" where
  "replicate_loop target n [] st = st"
| "replicate_loop target n (line # rest) (new_nominal, found_target) =
     (if contains line ('': process '' @ target) then
        (case match_instance line of
           Some (indent, instance_name, module_name, params) \<Rightarrow>
             replicate_loop target n rest
               (new_nominal @ map (new_instance indent instance_name module_name params) [1..n],
                True)
         | None \<Rightarrow> replicate_loop target n rest (new_nominal @ [line], True))
      else replicate_loop target n rest (new_nominal @ [line], found_target))"

text \<open>The result is the pair of the lines printed and the text returned.\<close>

definition replicate_for_redundancy :: "FaultInjectionEngine \<Rightarrow> string \<Rightarrow> string list \<times> string" where
  "replicate_for_redundancy eng smv_content =
     (let fm = fault_model eng in
      if redundancy fm \<le> 1 then ([], smv_content)
      else case find_module smv_content ''NominalR'' of
        Inl e \<Rightarrow> ([''Warning: NominalR module not found, skipping redundancy''], smv_content)
      | Inr (start_idx, end_idx) \<Rightarrow>
          (let lines = splitlines smv_content;
               nominal_lines = slice start_idx end_idx lines;
               (new_nominal, found_target) =
                  replicate_loop (target_module fm) (redundancy fm) nominal_lines ([], False)
           in if \<not> found_target then
                ([''Warning: Could not find instance of '' @ target_module fm @ '' in NominalR''],
                 smv_content)
              else ([], concat (take start_idx lines) @ concat new_nominal
                        @ concat (drop end_idx lines))))"

section \<open>Derived descriptions used in the statements\<close>

text \<open>What one line of the wrapper module contributes to \<open>new_nominal\<close>: the body of the
  loop of \<open>replicate_for_redundancy\<close> for a single line.\<close>

definition replicate_line :: "string \<Rightarrow> int \<Rightarrow> string \<Rightarrow> string list" where
  "replicate_line target n line =
     (if contains line ('': process '' @ target) then
        (case match_instance line of
           Some (indent, instance_name, module_name, params) \<Rightarrow>
             map (new_instance indent instance_name module_name params) [1..n]
         | None \<Rightarrow> [line])
      else [line])"

text \<open>How \<open>_find_insert_position_for_next_fault_mode\<close> reads a line: a line containing
  \<open>init(\<close> is an initial-value line, whatever else it contains; a line containing \<open>next(\<close>
  and no \<open>init(\<close> is a next-state line.\<close>

definition is_init_line :: "string \<Rightarrow> bool" where
  "is_init_line l \<longleftrightarrow> contains l ''init(''"

definition is_next_line :: "string \<Rightarrow> bool" where
  "is_next_line l \<longleftrightarrow> contains l ''next('' \<and> \<not> contains l ''init(''"

text \<open>Duplicates removed, the first occurrence of each element kept, in the order of the
  first occurrences (\<^const>\<open>remdups\<close> keeps the last occurrences, hence the two reversals).\<close>

definition dedup_keep_first :: "'a list \<Rightarrow> 'a list" where
  "dedup_keep_first xs = rev (remdups (rev xs))"

section \<open>Facts about the text primitives\<close>

lemma startswith_iff: "startswith s p \<longleftrightarrow> (\<exists>r. s = p @ r)"
  by (induction s p rule: startswith.induct) auto

lemma startswith_append: "startswith s (p @ q) \<Longrightarrow> startswith s p"
  by (auto simp: startswith_iff)

lemma splitlines_eq_Nil: "splitlines s = [] \<longleftrightarrow> s = []"
  by (induction s rule: splitlines.induct) (auto split: list.splits)

lemma concat_splitlines: "concat (splitlines s) = s"
  by (induction s rule: splitlines.induct) (auto split: list.splits simp: splitlines_eq_Nil)

lemma first_line_with_None:
  "first_line_with key ls = None \<longleftrightarrow> (\<forall>l \<in> set ls. \<not> startswith (strip l) key)"
  by (induction ls) auto

lemma first_line_with_Some:
  "first_line_with key ls = Some i \<longleftrightarrow>
     i < length ls \<and> startswith (strip (ls ! i)) key \<and> (\<forall>j<i. \<not> startswith (strip (ls ! j)) key)"
proof (induction ls arbitrary: i)
  case Nil
  show ?case by simp
next
  case (Cons l ls)
  show ?case
  proof (cases "startswith (strip l) key")
    case True
    then show ?thesis by (cases i) auto
  next
    case False
    show ?thesis
    proof (cases i)
      case 0
      with False show ?thesis by simp
    next
      case (Suc k)
      with False Cons.IH [of k] show ?thesis
        by (auto simp: less_Suc_eq_0_disj)
    qed
  qed
qed

lemma first_line_with_drop_Some:
  "first_line_with key (drop n ls) = Some k \<longleftrightarrow>
     n + k < length ls \<and> startswith (strip (ls ! (n + k))) key
     \<and> (\<forall>j. n \<le> j \<and> j < n + k \<longrightarrow> \<not> startswith (strip (ls ! j)) key)"
proof -
  have "(\<forall>j<k. \<not> startswith (strip (ls ! (n + j))) key)
     \<longleftrightarrow> (\<forall>j. n \<le> j \<and> j < n + k \<longrightarrow> \<not> startswith (strip (ls ! j)) key)"
  proof
    assume a: "\<forall>j<k. \<not> startswith (strip (ls ! (n + j))) key"
    show "\<forall>j. n \<le> j \<and> j < n + k \<longrightarrow> \<not> startswith (strip (ls ! j)) key"
    proof (intro allI impI)
      fix j assume "n \<le> j \<and> j < n + k"
      then have "j - n < k" "n + (j - n) = j" by auto
      with a show "\<not> startswith (strip (ls ! j)) key" by metis
    qed
  qed auto
  then show ?thesis
    by (auto simp: first_line_with_Some)
qed

lemma first_line_with_drop_None:
  "first_line_with key (drop n ls) = None \<longleftrightarrow>
     (\<forall>j. n \<le> j \<and> j < length ls \<longrightarrow> \<not> startswith (strip (ls ! j)) key)"
proof -
  have "(\<forall>l \<in> set (drop n ls). \<not> startswith (strip l) key)
     \<longleftrightarrow> (\<forall>j. n \<le> j \<and> j < length ls \<longrightarrow> \<not> startswith (strip (ls ! j)) key)"
  proof
    assume a: "\<forall>l \<in> set (drop n ls). \<not> startswith (strip l) key"
    show "\<forall>j. n \<le> j \<and> j < length ls \<longrightarrow> \<not> startswith (strip (ls ! j)) key"
    proof (intro allI impI)
      fix j assume j: "n \<le> j \<and> j < length ls"
      then have "drop n ls ! (j - n) = ls ! j" "j - n < length (drop n ls)" by auto
      then have "ls ! j \<in> set (drop n ls)" by (metis nth_mem)
      with a show "\<not> startswith (strip (ls ! j)) key" by blast
    qed
  next
    assume a: "\<forall>j. n \<le> j \<and> j < length ls \<longrightarrow> \<not> startswith (strip (ls ! j)) key"
    show "\<forall>l \<in> set (drop n ls). \<not> startswith (strip l) key"
    proof
      fix l assume "l \<in> set (drop n ls)"
      then obtain i where "i < length (drop n ls)" "drop n ls ! i = l"
        by (auto simp: in_set_conv_nth)
      then have "l = ls ! (n + i)" "n + i < length ls" by auto
      with a show "\<not> startswith (strip l) key" by auto
    qed
  qed
  then show ?thesis by (simp add: first_line_with_None)
qed

text \<open>Stripping both ends or the front only makes no difference to \<open>startswith\<close> for a
  key that ends in a character that is not whitespace.\<close>

lemma startswith_strip_lstrip:
  assumes "key \<noteq> []" and "\<not> isspace (last key)"
  shows "startswith (strip l) key \<longleftrightarrow> startswith (dropWhile isspace l) key"
proof
  let ?t = "dropWhile isspace l"
  have t: "?t = strip l @ rev (takeWhile isspace (rev ?t))"
    unfolding strip_def
    by (metis rev_append rev_rev_ident takeWhile_dropWhile_id)
  {
    assume "startswith (strip l) key"
    then obtain r where "strip l = key @ r" by (auto simp: startswith_iff)
    with t have "?t = key @ (r @ rev (takeWhile isspace (rev ?t)))" by simp
    then show "startswith ?t key" unfolding startswith_iff by blast
  }
  {
    assume "startswith ?t key"
    then obtain r where r: "?t = key @ r" by (auto simp: startswith_iff)
    from assms have "dropWhile isspace (rev key) = rev key"
      by (cases "rev key") (auto simp: last_rev [symmetric] simp del: last_rev)
    then have "\<exists>x. dropWhile isspace (rev r @ rev key) = x @ rev key"
      by (auto simp: dropWhile_append)
    then obtain x where "dropWhile isspace (rev ?t) = x @ rev key"
      using r by auto
    then have "strip l = key @ rev x" by (simp add: strip_def)
    then show "startswith (strip l) key" unfolding startswith_iff by blast
  }
qed

section \<open>Module Locator\<close>

text \<open>
  Claim C7.  \<open>find_module\<close> returns \<open>(s, e)\<close> exactly when \<open>s\<close> is the first line whose
  trimmed text starts with \<open>MODULE <name>\<close> and \<open>e\<close> is the next line after \<open>s\<close> whose trimmed
  text starts with \<open>MODULE \<close>, or the number of lines when there is none; it fails with
  module-not-found exactly when no line matches; a header whose name merely begins with the
  requested name matches too, so the first such line wins; and for a name that does not end
  in whitespace, trimming both ends and trimming the front only select the same lines.
\<close>

theorem find_module_range:
  "(find_module content module_name = Inr (s, e) \<longleftrightarrow>
      s < length (splitlines content)
      \<and> startswith (strip (splitlines content ! s)) (''MODULE '' @ module_name)
      \<and> (\<forall>i<s. \<not> startswith (strip (splitlines content ! i)) (''MODULE '' @ module_name))
      \<and> s < e \<and> e \<le> length (splitlines content)
      \<and> (\<forall>j. s < j \<and> j < e \<longrightarrow> \<not> startswith (strip (splitlines content ! j)) ''MODULE '')
      \<and> (e < length (splitlines content) \<longrightarrow> startswith (strip (splitlines content ! e)) ''MODULE ''))
   \<and> (find_module content module_name = Inl (ModuleNotFound module_name) \<longleftrightarrow>
        (\<forall>l \<in> set (splitlines content). \<not> startswith (strip l) (''MODULE '' @ module_name)))
   \<and> (startswith (strip l) (''MODULE '' @ module_name @ suffix)
        \<longrightarrow> startswith (strip l) (''MODULE '' @ module_name))
   \<and> (module_name \<noteq> [] \<and> \<not> isspace (last module_name) \<longrightarrow>
        (startswith (strip l) (''MODULE '' @ module_name)
           \<longleftrightarrow> startswith (dropWhile isspace l) (''MODULE '' @ module_name)))"
proof -
  let ?ls = "splitlines content"
  let ?key = "''MODULE '' @ module_name"
  have range: "find_module content module_name = Inr (s, e) \<longleftrightarrow>
      first_line_with ?key ?ls = Some s
      \<and> (case first_line_with ''MODULE '' (drop (s + 1) ?ls) of
            Some k \<Rightarrow> e = s + 1 + k | None \<Rightarrow> e = length ?ls)"
    by (auto simp: find_module_def Let_def split: option.splits)
  have "find_module content module_name = Inr (s, e) \<longleftrightarrow>
      s < length ?ls \<and> startswith (strip (?ls ! s)) ?key
      \<and> (\<forall>i<s. \<not> startswith (strip (?ls ! i)) ?key)
      \<and> s < e \<and> e \<le> length ?ls
      \<and> (\<forall>j. s < j \<and> j < e \<longrightarrow> \<not> startswith (strip (?ls ! j)) ''MODULE '')
      \<and> (e < length ?ls \<longrightarrow> startswith (strip (?ls ! e)) ''MODULE '')"
    (is "?L \<longleftrightarrow> ?R")
  proof
    assume ?L
    with range have s: "first_line_with ?key ?ls = Some s"
      and e: "case first_line_with ''MODULE '' (drop (s + 1) ?ls) of
            Some k \<Rightarrow> e = s + 1 + k | None \<Rightarrow> e = length ?ls"
      by simp_all
    from s have s': "s < length ?ls" "startswith (strip (?ls ! s)) ?key"
      "\<forall>i<s. \<not> startswith (strip (?ls ! i)) ?key"
      by (simp_all add: first_line_with_Some)
    show ?R
    proof (cases "first_line_with ''MODULE '' (drop (s + 1) ?ls)")
      case None
      with e have "e = length ?ls" by simp
      moreover from None have "\<forall>j. s + 1 \<le> j \<and> j < length ?ls
          \<longrightarrow> \<not> startswith (strip (?ls ! j)) ''MODULE ''"
        by (simp add: first_line_with_drop_None)
      ultimately show ?thesis using s' by auto
    next
      case (Some k)
      with e have "e = s + 1 + k" by simp
      moreover from Some have "s + 1 + k < length ?ls"
        "startswith (strip (?ls ! (s + 1 + k))) ''MODULE ''"
        "\<forall>j. s + 1 \<le> j \<and> j < s + 1 + k \<longrightarrow> \<not> startswith (strip (?ls ! j)) ''MODULE ''"
        by (simp_all add: first_line_with_drop_Some)
      ultimately show ?thesis using s' by auto
    qed
  next
    assume R: ?R
    then have s: "first_line_with ?key ?ls = Some s"
      by (simp add: first_line_with_Some)
    show ?L
    proof (cases "e < length ?ls")
      case True
      with R have "first_line_with ''MODULE '' (drop (s + 1) ?ls) = Some (e - (s + 1))"
        by (auto simp: first_line_with_drop_Some)
      with s R show ?thesis unfolding range by simp
    next
      case False
      with R have "e = length ?ls" by simp
      with R have "first_line_with ''MODULE '' (drop (s + 1) ?ls) = None"
        by (auto simp: first_line_with_drop_None)
      with s \<open>e = length ?ls\<close> show ?thesis unfolding range by simp
    qed
  qed
  moreover have "find_module content module_name = Inl (ModuleNotFound module_name) \<longleftrightarrow>
        (\<forall>l \<in> set ?ls. \<not> startswith (strip l) ?key)"
    by (auto simp: find_module_def Let_def first_line_with_None [symmetric] split: option.splits)
  moreover have "startswith (strip l) (''MODULE '' @ module_name @ suffix)
        \<longrightarrow> startswith (strip l) ?key"
    using startswith_append [of "strip l" ?key suffix] by simp
  moreover have "module_name \<noteq> [] \<and> \<not> isspace (last module_name) \<longrightarrow>
        (startswith (strip l) ?key \<longleftrightarrow> startswith (dropWhile isspace l) ?key)"
    using startswith_strip_lstrip [of ?key l] by simp
  ultimately show ?thesis by blast
qed

text \<open>A model with the modules \<open>main\<close>, \<open>Ab\<close> and \<open>A\<close>, searched for \<open>A\<close>: the header of \<open>Ab\<close>
  on line 1 is the first prefix match and the range ends before the header of \<open>A\<close>; searched
  for \<open>B\<close> there is no match.\<close>

theorem find_module_range_witness:
  "find_module ''MODULE main\<newline> MODULE Ab\<newline>  x\<newline>MODULE A\<newline>'' ''A'' = Inr (1, 3)
   \<and> find_module ''MODULE main\<newline> MODULE Ab\<newline>  x\<newline>MODULE A\<newline>'' ''B'' = Inl (ModuleNotFound ''B'')"
proof -
  let ?c = "''MODULE main\<newline> MODULE Ab\<newline>  x\<newline>MODULE A\<newline>''"
  have ls: "splitlines ?c = [''MODULE main\<newline>'', '' MODULE Ab\<newline>'', ''  x\<newline>'', ''MODULE A\<newline>'']"
    by code_simp
  have mid: "\<forall>j::nat. 1 < j \<and> j < 3 \<longrightarrow> \<not> startswith (strip (splitlines ?c ! j)) ''MODULE ''"
  proof (intro allI impI)
    fix j :: nat assume "1 < j \<and> j < 3"
    then have "j = 2" by arith
    then show "\<not> startswith (strip (splitlines ?c ! j)) ''MODULE ''"
      unfolding ls by (simp add: strip_def isspace_def)
  qed
  have "(1::nat) < length (splitlines ?c)
      \<and> startswith (strip (splitlines ?c ! 1)) (''MODULE '' @ ''A'')
      \<and> (\<forall>i<1. \<not> startswith (strip (splitlines ?c ! i)) (''MODULE '' @ ''A''))
      \<and> (1::nat) < 3 \<and> 3 \<le> length (splitlines ?c)
      \<and> (3 < length (splitlines ?c) \<longrightarrow> startswith (strip (splitlines ?c ! 3)) ''MODULE '')"
    unfolding ls by (simp add: strip_def isspace_def)
  with mid have a: "find_module ?c ''A'' = Inr (1, 3)"
    using find_module_range [of ?c "''A''" 1 3] by blast
  have "\<forall>l \<in> set (splitlines ?c). \<not> startswith (strip l) (''MODULE '' @ ''B'')"
    unfolding ls by (simp add: strip_def isspace_def)
  then have "find_module ?c ''B'' = Inl (ModuleNotFound ''B'')"
    using find_module_range [of ?c "''B''"] by blast
  with a show ?thesis by simp
qed

section \<open>Engine construction\<close>

text \<open>
  Claim C5, as the code has it.  Constructing the engine fails with the
  unsupported-fault-kind error exactly when the fault list is empty or holds a fault whose
  kind is not \<open>stuck-at\<close>: the set of kinds must be exactly \<open>{stuck-at}\<close>.  Otherwise the
  engine is built with the stuck-at injector over the whole list.
\<close>

theorem new_engine_fails_iff:
  "(new_engine fm = Inl (UnsupportedFaultTypes (set (map fault_type (faults fm))))
      \<longleftrightarrow> faults fm = [] \<or> (\<exists>f \<in> set (faults fm). fault_type f \<noteq> ''stuck-at''))
   \<and> (new_engine fm = Inr \<lparr>fault_model = fm, injector = faults fm\<rparr>
      \<longleftrightarrow> faults fm \<noteq> [] \<and> (\<forall>f \<in> set (faults fm). fault_type f = ''stuck-at''))"
proof -
  have "set (map fault_type (faults fm)) = {''stuck-at''}
          \<longleftrightarrow> faults fm \<noteq> [] \<and> (\<forall>f \<in> set (faults fm). fault_type f = ''stuck-at'')"
    by (cases "faults fm") auto
  then show ?thesis
    by (auto simp: new_engine_def create_injector_def Let_def)
qed

text \<open>A list with a second kind fails; a list of stuck-at faults builds the engine.\<close>

theorem new_engine_fails_iff_witness:
  "new_engine \<lparr>model_file = ''model.smv'', target_module = ''Sensor'', redundancy = 1,
      faults = [\<lparr>fault_type = ''stuck-at'', variable = ''reading'', fault_value = ''0''\<rparr>,
                \<lparr>fault_type = ''bit-flip'', variable = ''reading'', fault_value = ''1''\<rparr>]\<rparr>
     = Inl (UnsupportedFaultTypes {''stuck-at'', ''bit-flip''})
   \<and> new_engine \<lparr>model_file = ''model.smv'', target_module = ''Sensor'', redundancy = 1,
      faults = [\<lparr>fault_type = ''stuck-at'', variable = ''reading'', fault_value = ''0''\<rparr>]\<rparr>
     = Inr \<lparr>fault_model = \<lparr>model_file = ''model.smv'', target_module = ''Sensor'', redundancy = 1,
      faults = [\<lparr>fault_type = ''stuck-at'', variable = ''reading'', fault_value = ''0''\<rparr>]\<rparr>,
      injector = [\<lparr>fault_type = ''stuck-at'', variable = ''reading'', fault_value = ''0''\<rparr>]\<rparr>"
  using new_engine_fails_iff [of "\<lparr>model_file = ''model.smv'', target_module = ''Sensor'', redundancy = 1,
      faults = [\<lparr>fault_type = ''stuck-at'', variable = ''reading'', fault_value = ''0''\<rparr>,
                \<lparr>fault_type = ''bit-flip'', variable = ''reading'', fault_value = ''1''\<rparr>]\<rparr>"]
    new_engine_fails_iff [of "\<lparr>model_file = ''model.smv'', target_module = ''Sensor'', redundancy = 1,
      faults = [\<lparr>fault_type = ''stuck-at'', variable = ''reading'', fault_value = ''0''\<rparr>]\<rparr>"]
  by simp

text \<open>The empty fault list: the set of kinds is empty, not \<open>{stuck-at}\<close>, and construction
  fails although no fault has another kind.\<close>

theorem new_engine_empty_faults_counterexample:
  "new_engine \<lparr>model_file = ''model.smv'', target_module = ''Sensor'', redundancy = 1, faults = []\<rparr>
     = Inl (UnsupportedFaultTypes {})"
  by (simp add: new_engine_def create_injector_def)

section \<open>Facts about the matchers\<close>

lemma contains_iff: "contains s p \<longleftrightarrow> (\<exists>a b. s = a @ p @ b)"
proof (induction s)
  case Nil
  show ?case by auto
next
  case (Cons c cs)
  show ?case
  proof
    assume "contains (c # cs) p"
    then consider "startswith (c # cs) p" | "contains cs p" by auto
    then show "\<exists>a b. c # cs = a @ p @ b"
    proof cases
      case 1
      then obtain r where "c # cs = [] @ p @ r" by (auto simp: startswith_iff)
      then show ?thesis by blast
    next
      case 2
      with Cons.IH obtain a b where "cs = a @ p @ b" by auto
      then have "c # cs = (c # a) @ p @ b" by simp
      then show ?thesis by blast
    qed
  next
    assume "\<exists>a b. c # cs = a @ p @ b"
    then obtain a b where ab: "c # cs = a @ p @ b" by auto
    show "contains (c # cs) p"
    proof (cases a)
      case Nil
      with ab have "startswith (c # cs) p" by (auto simp: startswith_iff)
      then show ?thesis by simp
    next
      case (Cons x a')
      with ab have "cs = a' @ p @ b" by simp
      with Cons.IH show ?thesis by auto
    qed
  qed
qed

lemma find_split_Some: "find_split p s = Some (b, a) \<Longrightarrow> s = b @ p @ a"
proof (induction s arbitrary: b)
  case Nil
  then show ?case by (auto split: if_splits)
next
  case (Cons c cs)
  show ?case
  proof (cases "startswith (c # cs) p")
    case True
    then obtain r where r: "c # cs = p @ r" by (auto simp: startswith_iff)
    from True Cons.prems have "b = []" "a = drop (length p) (c # cs)" by auto
    with r show ?thesis by (metis append_Nil append_eq_conv_conj)
  next
    case False
    with Cons.prems obtain b' where "find_split p cs = Some (b', a)" "b = c # b'"
      by auto
    with Cons.IH show ?thesis by auto
  qed
qed

lemma find_split_None: "find_split p s = None \<longleftrightarrow> \<not> contains s p"
  by (induction s) auto

lemma find_split_first:
  "find_split p s = Some (b, a) \<Longrightarrow> i < length b \<Longrightarrow> \<not> startswith (drop i s) p"
proof (induction s arbitrary: b i)
  case Nil
  then show ?case by (auto split: if_splits)
next
  case (Cons c cs)
  show ?case
  proof (cases "startswith (c # cs) p")
    case True
    with Cons.prems show ?thesis by auto
  next
    case False
    with Cons.prems obtain b' where b': "find_split p cs = Some (b', a)" "b = c # b'"
      by auto
    show ?thesis
    proof (cases i)
      case 0
      with False show ?thesis by simp
    next
      case (Suc k)
      with Cons.prems b' have "k < length b'" by simp
      with Cons.IH b' have "\<not> startswith (drop k cs) p" by blast
      with Suc show ?thesis by simp
    qed
  qed
qed

lemma find_split_complete:
  "(\<forall>i<length b. \<not> startswith (drop i (b @ p @ a)) p) \<Longrightarrow> find_split p (b @ p @ a) = Some (b, a)"
proof (induction b)
  case Nil
  show ?case
  proof (cases "p @ a")
    case Nil
    then show ?thesis by simp
  next
    case (Cons x xs)
    have "startswith (p @ a) p" by (auto simp: startswith_iff)
    with Cons have "find_split p (p @ a) = Some ([], drop (length p) (p @ a))" by simp
    then show ?thesis by simp
  qed
next
  case (Cons c b)
  from Cons.prems have "\<not> startswith ((c # b) @ p @ a) p" by force
  moreover from Cons.prems have "\<forall>i<length b. \<not> startswith (drop i (b @ p @ a)) p"
    by fastforce
  ultimately show ?case using Cons.IH by simp
qed

lemma isword_not_isspace: "isword c \<Longrightarrow> \<not> isspace c"
  by (auto simp: isword_def isspace_def)

lemma span_append:
  "(\<forall>x \<in> set xs. P x) \<Longrightarrow> ys = [] \<or> \<not> P (hd ys) \<Longrightarrow>
     takeWhile P (xs @ ys) = xs \<and> dropWhile P (xs @ ys) = ys"
  by (cases ys) (auto simp: takeWhile_append dropWhile_append)

lemma match_instance_sound:
  assumes "match_instance line = Some (indent, instance_name, module_name, params)"
  shows "\<exists>w1 w2 w3 rest.
      line = indent @ instance_name @ w1 @ '':'' @ w2 @ ''process'' @ w3 @ module_name
               @ ''('' @ params @ '');'' @ rest
      \<and> (\<forall>c \<in> set indent. isspace c)
      \<and> instance_name \<noteq> [] \<and> (\<forall>c \<in> set instance_name. isword c)
      \<and> (\<forall>c \<in> set (w1 @ w2 @ w3). isspace c) \<and> w3 \<noteq> []
      \<and> module_name \<noteq> [] \<and> (\<forall>c \<in> set module_name. isword c)
      \<and> CHR ''\<newline>'' \<notin> set params"
proof -
  define r1 where "r1 = dropWhile isspace line"
  define r2 where "r2 = dropWhile isword r1"
  define r3 where "r3 = dropWhile isspace r2"
  define r4 where "r4 = dropWhile isspace (drop 1 r3)"
  define r5 where "r5 = drop 7 r4"
  define r6 where "r6 = dropWhile isspace r5"
  define r7 where "r7 = dropWhile isword r6"
  note defs = r1_def r2_def r3_def r4_def r5_def r6_def r7_def
  from assms have c:
    "indent = takeWhile isspace line" "instance_name = takeWhile isword r1"
    "instance_name \<noteq> []" "startswith r3 '':''" "startswith r4 ''process''"
    "takeWhile isspace r5 \<noteq> []" "module_name = takeWhile isword r6" "module_name \<noteq> []"
    "startswith r7 ''(''"
    and fs: "\<exists>rest. find_split '');'' (drop 1 r7) = Some (params, rest)"
    and nl: "CHR ''\<newline>'' \<notin> set params"
    unfolding match_instance_def Let_def defs
    by (auto split: if_splits option.splits)
  from fs obtain rest where "find_split '');'' (drop 1 r7) = Some (params, rest)" by blast
  then have e8: "drop 1 r7 = params @ '');'' @ rest" by (rule find_split_Some)
  from c(9) have e7: "r7 = ''('' @ drop 1 r7" by (auto simp: startswith_iff)
  have e6: "r6 = module_name @ r7" by (simp add: c r7_def)
  have e5: "r5 = takeWhile isspace r5 @ r6" by (simp add: r6_def)
  from c(5) have e4: "r4 = ''process'' @ r5" by (auto simp: startswith_iff r5_def)
  from c(4) have e3: "r3 = '':'' @ drop 1 r3" by (auto simp: startswith_iff)
  have e3': "drop 1 r3 = takeWhile isspace (drop 1 r3) @ r4" by (simp add: r4_def)
  have e2: "r2 = takeWhile isspace r2 @ r3" by (simp add: r3_def)
  have e1: "r1 = instance_name @ r2" by (simp add: c r2_def)
  have e0: "line = indent @ r1" by (simp add: c r1_def)
  have "line = indent @ instance_name @ takeWhile isspace r2 @ '':''
      @ takeWhile isspace (drop 1 r3) @ ''process'' @ takeWhile isspace r5 @ module_name
      @ ''('' @ params @ '');'' @ rest"
    by (metis e0 e1 e2 e3 e3' e4 e5 e6 e7 e8 append_assoc)
  moreover have "\<forall>c \<in> set indent. isspace c" "\<forall>c \<in> set instance_name. isword c"
    "\<forall>c \<in> set module_name. isword c"
    "\<forall>c \<in> set (takeWhile isspace r2 @ takeWhile isspace (drop 1 r3) @ takeWhile isspace r5). isspace c"
    using c by (auto dest: set_takeWhileD)
  ultimately show ?thesis using c nl by blast
qed

lemma match_instance_complete:
  assumes "\<forall>c \<in> set indent. isspace c"
    and "instance_name \<noteq> []" and "\<forall>c \<in> set instance_name. isword c"
    and "module_name \<noteq> []" and "\<forall>c \<in> set module_name. isword c"
    and "CHR ''\<newline>'' \<notin> set params" and "CHR '';'' \<notin> set params"
  shows "match_instance (indent @ instance_name @ '' : process '' @ module_name
               @ ''('' @ params @ '');'' @ rest)
         = Some (indent, instance_name, module_name, params)"
proof -
  let ?t7 = "''('' @ params @ '');'' @ rest"
  let ?t6 = "module_name @ ?t7"
  let ?t2 = "'' : process '' @ ?t6"
  let ?t1 = "instance_name @ ?t2"
  from assms have hd_name: "\<not> isspace (hd ?t1)" and hd_mod: "\<not> isspace (hd ?t6)"
    by (auto simp: isword_not_isspace hd_append)
  have s0: "takeWhile isspace (indent @ ?t1) = indent \<and> dropWhile isspace (indent @ ?t1) = ?t1"
    using assms(1) hd_name by (intro span_append) auto
  have s1: "takeWhile isword ?t1 = instance_name \<and> dropWhile isword ?t1 = ?t2"
    using assms(3) by (intro span_append) (auto simp: isword_def)
  have s5: "takeWhile isspace ('' '' @ ?t6) = '' '' \<and> dropWhile isspace ('' '' @ ?t6) = ?t6"
    using hd_mod by (intro span_append) (auto simp: isspace_def)
  have s6: "takeWhile isword ?t6 = module_name \<and> dropWhile isword ?t6 = ?t7"
    using assms(5) by (intro span_append) (auto simp: isword_def)
  have "\<forall>i<length params. \<not> startswith (drop i (params @ '');'' @ rest)) '');''"
  proof (intro allI impI)
    fix i assume i: "i < length params"
    then obtain c cs where d: "drop i params = c # cs"
      by (cases "drop i params") auto
    then have "set cs \<subseteq> set params"
      by (metis set_drop_subset set_subset_Cons subset_trans)
    with assms(7) have "cs = [] \<or> hd cs \<noteq> CHR '';''"
      by (cases cs) auto
    then have "\<not> startswith (cs @ '');'' @ rest) '';''"
      by (cases cs) auto
    with i d show "\<not> startswith (drop i (params @ '');'' @ rest)) '');''"
      by simp
  qed
  then have fs: "find_split '');'' (params @ '');'' @ rest) = Some (params, rest)"
    by (rule find_split_complete)
  have r2: "dropWhile isspace ?t2 = '': process '' @ ?t6"
    by (simp add: isspace_def)
  have r4: "dropWhile isspace ('' process '' @ ?t6) = ''process '' @ ?t6"
    by (simp add: isspace_def)
  show ?thesis
    unfolding match_instance_def Let_def
    using assms(2,4,6) s0 s1 s5 s6 fs r2 r4
    by simp
qed

section \<open>Lines of a text\<close>

lemma splitlines_line_shape:
  "l \<in> set (splitlines s) \<Longrightarrow>
     \<exists>body t. l = body @ t \<and> (\<forall>c \<in> set body. \<not> islinebreak c) \<and> (\<forall>c \<in> set t. islinebreak c)"
proof (induction s arbitrary: l rule: splitlines.induct)
  case 1
  then show ?case by simp
next
  case (2 c)
  then have l: "l = [c]" by simp
  show ?case
  proof (cases "islinebreak c")
    case True
    with l have "l = [] @ [c] \<and> (\<forall>c \<in> set []. \<not> islinebreak c) \<and> (\<forall>x \<in> set [c]. islinebreak x)"
      by simp
    then show ?thesis by blast
  next
    case False
    with l have "l = [c] @ [] \<and> (\<forall>x \<in> set [c]. \<not> islinebreak x) \<and> (\<forall>x \<in> set []. islinebreak x)"
      by simp
    then show ?thesis by blast
  qed
next
  case (3 c d cs)
  show ?case
  proof (cases "c = CHR 0x0D \<and> d = CHR 0x0A")
    case True
    with 3 show ?thesis
    proof (cases "l = [c, d]")
      case True
      with \<open>c = CHR 0x0D \<and> d = CHR 0x0A\<close>
      have "l = [] @ [c, d] \<and> (\<forall>x \<in> set []. \<not> islinebreak x) \<and> (\<forall>x \<in> set [c, d]. islinebreak x)"
        by (simp add: islinebreak_def)
      then show ?thesis by blast
    next
      case False
      with 3 \<open>c = CHR 0x0D \<and> d = CHR 0x0A\<close> have "l \<in> set (splitlines cs)" by simp
      with 3 \<open>c = CHR 0x0D \<and> d = CHR 0x0A\<close> show ?thesis by blast
    qed
  next
    case notcrlf: False
    show ?thesis
    proof (cases "islinebreak c")
      case True
      show ?thesis
      proof (cases "l = [c]")
        case l: True
        with True have "l = [] @ [c] \<and> (\<forall>x \<in> set []. \<not> islinebreak x) \<and> (\<forall>x \<in> set [c]. islinebreak x)"
          by simp
        then show ?thesis by blast
      next
        case False
        with 3 notcrlf True have "l \<in> set (splitlines (d # cs))" by auto
        with 3 notcrlf True show ?thesis by blast
      qed
    next
      case nb: False
      obtain l0 ls where sp: "splitlines (d # cs) = l0 # ls"
        by (cases "splitlines (d # cs)") (auto simp: splitlines_eq_Nil)
      with notcrlf nb have all: "splitlines (c # d # cs) = (c # l0) # ls" by auto
      show ?thesis
      proof (cases "l = c # l0")
        case True
        from sp have "l0 \<in> set (splitlines (d # cs))" by simp
        with 3(3) [OF notcrlf nb] obtain body t where
          "l0 = body @ t" "\<forall>c \<in> set body. \<not> islinebreak c" "\<forall>c \<in> set t. islinebreak c"
          by blast
        with True nb have "l = (c # body) @ t \<and> (\<forall>x \<in> set (c # body). \<not> islinebreak x)
            \<and> (\<forall>x \<in> set t. islinebreak x)"
          by simp
        then show ?thesis by blast
      next
        case False
        with all 3(4) have "l \<in> set ls" by simp
        with sp have "l \<in> set (splitlines (d # cs))" by simp
        with 3(3) [OF notcrlf nb] show ?thesis by blast
      qed
    qed
  qed
qed

lemma prefix_before_plain_char:
  assumes "l = body @ t" and "\<forall>c \<in> set t. P c" and "l = x @ c # rest" and "\<not> P c"
  shows "set x \<subseteq> set body"
proof -
  from assms(1,3) have "body @ t = x @ (c # rest)" by simp
  then obtain us where "(body = x @ us \<and> us @ t = c # rest) \<or> (body @ us = x \<and> t = us @ c # rest)"
    unfolding append_eq_append_conv2 by blast
  then show ?thesis
  proof
    assume "body = x @ us \<and> us @ t = c # rest"
    then show ?thesis by auto
  next
    assume "body @ us = x \<and> t = us @ c # rest"
    then have "c \<in> set t" by auto
    with assms(2,4) show ?thesis by blast
  qed
qed

lemma splitlines_one_line:
  "(\<forall>c \<in> set body. \<not> islinebreak c) \<Longrightarrow>
     splitlines (body @ CHR ''\<newline>'' # rest) = (body @ ''\<newline>'') # splitlines rest"
proof (induction body)
  case Nil
  show ?case by (cases rest) (simp_all add: islinebreak_def)
next
  case (Cons b bs)
  then have ih: "splitlines (bs @ CHR ''\<newline>'' # rest) = (bs @ ''\<newline>'') # splitlines rest"
    by simp
  from Cons.prems have nb: "\<not> islinebreak b" by simp
  then have "b \<noteq> CHR 0x0D" by (auto simp: islinebreak_def)
  obtain d cs where dc: "bs @ CHR ''\<newline>'' # rest = d # cs"
    by (cases "bs @ CHR ''\<newline>'' # rest") auto
  have "splitlines (b # d # cs) = (b # bs @ ''\<newline>'') # splitlines rest"
    using nb \<open>b \<noteq> CHR 0x0D\<close> ih dc by simp
  with dc show ?case by simp
qed

lemma splitlines_lines:
  "(\<forall>b \<in> set bodies. \<forall>c \<in> set b. \<not> islinebreak c) \<Longrightarrow>
     splitlines (concat (map (\<lambda>b. b @ ''\<newline>'') bodies)) = map (\<lambda>b. b @ ''\<newline>'') bodies"
  by (induction bodies) (simp_all add: splitlines_one_line)

lemma digit_char_plain: "d < 10 \<Longrightarrow> \<not> islinebreak (digit_char d)"
proof -
  have "\<forall>d \<in> set [0..<10]. \<not> islinebreak (digit_char d)"
    by code_simp
  moreover assume "d < 10"
  ultimately show ?thesis by simp
qed

lemma str_nat_plain: "\<forall>c \<in> set (str_nat n). \<not> islinebreak c"
proof (induction n rule: str_nat.induct)
  case (1 n)
  show ?case
  proof (cases "n < 10")
    case True
    then have "str_nat n = [digit_char n]" by (subst str_nat.simps) simp
    with True show ?thesis using digit_char_plain [of n] by simp
  next
    case False
    then have e: "str_nat n = str_nat (n div 10) @ [digit_char (n mod 10)]"
      by (subst str_nat.simps) simp
    have "n mod 10 < 10" by simp
    then have "\<not> islinebreak (digit_char (n mod 10))" by (rule digit_char_plain)
    with False 1 show ?thesis unfolding e by simp
  qed
qed

lemma str_int_plain: "\<forall>c \<in> set (str_int i). \<not> islinebreak c"
  using str_nat_plain by (auto simp: str_int_def islinebreak_def)

lemma isspace_of_linebreak: "islinebreak c \<Longrightarrow> isspace c"
  by (auto simp: islinebreak_def isspace_def)

section \<open>Redundancy Replicator\<close>

lemma replicate_loop_eq:
  "replicate_loop target n ls (acc, found) =
     (acc @ concat (map (replicate_line target n) ls),
      found \<or> (\<exists>l \<in> set ls. contains l ('': process '' @ target)))"
  by (induction ls arbitrary: acc found)
     (auto simp: replicate_line_def split: option.splits)

lemma find_module_Inl_iff:
  "(\<exists>e. find_module content module_name = Inl e) \<longleftrightarrow>
     (\<forall>l \<in> set (splitlines content). \<not> startswith (strip l) (''MODULE '' @ module_name))"
  by (auto simp: find_module_def Let_def first_line_with_None [symmetric] split: option.splits)

lemma replicate_for_redundancy_found:
  assumes "1 < redundancy (fault_model eng)"
    and "find_module smv_content ''NominalR'' = Inr (s, e)"
  shows "replicate_for_redundancy eng smv_content =
     (if \<exists>l \<in> set (slice s e (splitlines smv_content)).
            contains l ('': process '' @ target_module (fault_model eng))
      then ([], concat (take s (splitlines smv_content))
               @ concat (concat (map (replicate_line (target_module (fault_model eng))
                    (redundancy (fault_model eng))) (slice s e (splitlines smv_content))))
               @ concat (drop e (splitlines smv_content)))
      else ([''Warning: Could not find instance of '' @ target_module (fault_model eng)
               @ '' in NominalR''], smv_content))"
  using assms
  by (simp add: replicate_for_redundancy_def Let_def replicate_loop_eq)

lemma replicate_line_other:
  "(\<forall>l \<in> set ls. \<not> contains l ('': process '' @ target))
     \<Longrightarrow> concat (map (replicate_line target n) ls) = ls"
  by (induction ls) (auto simp: replicate_line_def)

text \<open>
  Claim C9.  With a redundancy count of at least 2: when no line of the model is a header of
  the wrapper module \<open>NominalR\<close>, and when the wrapper is found but none of its lines contains
  \<open>: process <target>\<close>, the replicator prints one warning and returns the input text as it
  is.  The function has no error result: nothing is raised.
\<close>

theorem replicate_soft_failures:
  assumes "2 \<le> redundancy (fault_model eng)"
  shows "((\<forall>l \<in> set (splitlines smv_content). \<not> startswith (strip l) ''MODULE NominalR'')
          \<longrightarrow> replicate_for_redundancy eng smv_content =
                ([''Warning: NominalR module not found, skipping redundancy''], smv_content))
       \<and> (find_module smv_content ''NominalR'' = Inr (s, e)
           \<and> (\<forall>l \<in> set (slice s e (splitlines smv_content)).
                 \<not> contains l ('': process '' @ target_module (fault_model eng)))
          \<longrightarrow> replicate_for_redundancy eng smv_content =
                ([''Warning: Could not find instance of '' @ target_module (fault_model eng)
                    @ '' in NominalR''], smv_content))"
proof (intro conjI impI)
  assume "\<forall>l \<in> set (splitlines smv_content). \<not> startswith (strip l) ''MODULE NominalR''"
  then have "\<exists>e. find_module smv_content ''NominalR'' = Inl e"
    using find_module_Inl_iff [of smv_content "''NominalR''"] by simp
  with assms show "replicate_for_redundancy eng smv_content =
                ([''Warning: NominalR module not found, skipping redundancy''], smv_content)"
    by (auto simp: replicate_for_redundancy_def Let_def)
next
  assume "find_module smv_content ''NominalR'' = Inr (s, e)
           \<and> (\<forall>l \<in> set (slice s e (splitlines smv_content)).
                 \<not> contains l ('': process '' @ target_module (fault_model eng)))"
  with assms show "replicate_for_redundancy eng smv_content =
                ([''Warning: Could not find instance of '' @ target_module (fault_model eng)
                    @ '' in NominalR''], smv_content)"
    using replicate_for_redundancy_found [of eng smv_content s e] by auto
qed

text \<open>A model without the wrapper, and a model whose wrapper instantiates another module.\<close>

theorem replicate_soft_failures_witness:
  "replicate_for_redundancy
     \<lparr>fault_model = \<lparr>model_file = ''m.smv'', target_module = ''Sensor'', redundancy = 2,
        faults = []\<rparr>, injector = []\<rparr>
     ''MODULE main\<newline>VAR\<newline>  s : process Sensor(a);\<newline>''
   = ([''Warning: NominalR module not found, skipping redundancy''],
      ''MODULE main\<newline>VAR\<newline>  s : process Sensor(a);\<newline>'')
   \<and> replicate_for_redundancy
     \<lparr>fault_model = \<lparr>model_file = ''m.smv'', target_module = ''Sensor'', redundancy = 2,
        faults = []\<rparr>, injector = []\<rparr>
     ''MODULE NominalR\<newline>VAR\<newline>  p : process Pump(a);\<newline>MODULE Pump\<newline>''
   = ([''Warning: Could not find instance of Sensor in NominalR''],
      ''MODULE NominalR\<newline>VAR\<newline>  p : process Pump(a);\<newline>MODULE Pump\<newline>'')"
proof -
  let ?eng = "\<lparr>fault_model = \<lparr>model_file = ''m.smv'', target_module = ''Sensor'',
        redundancy = 2, faults = []\<rparr>, injector = []\<rparr>"
  let ?a = "''MODULE main\<newline>VAR\<newline>  s : process Sensor(a);\<newline>''"
  let ?b = "''MODULE NominalR\<newline>VAR\<newline>  p : process Pump(a);\<newline>MODULE Pump\<newline>''"
  have n: "2 \<le> redundancy (fault_model ?eng)" by simp
  have a: "\<forall>l \<in> set (splitlines ?a). \<not> startswith (strip l) ''MODULE NominalR''"
    by (simp add: strip_def isspace_def islinebreak_def)
  have b1: "find_module ?b ''NominalR'' = Inr (0, 3)"
    by code_simp
  have b2: "\<forall>l \<in> set (slice 0 3 (splitlines ?b)).
                 \<not> contains l ('': process '' @ target_module (fault_model ?eng))"
    by (simp add: slice_def islinebreak_def)
  from replicate_soft_failures [OF n, of ?a] a
  have "replicate_for_redundancy ?eng ?a =
      ([''Warning: NominalR module not found, skipping redundancy''], ?a)"
    by blast
  moreover from replicate_soft_failures [OF n, of ?b 0 3] b1 b2
  have "replicate_for_redundancy ?eng ?b =
      ([''Warning: Could not find instance of '' @ target_module (fault_model ?eng)
          @ '' in NominalR''], ?b)"
    by blast
  ultimately show ?thesis by simp
qed

text \<open>
  Claim C8.  With a redundancy count of at most 1 the replicator returns the text as it is
  and prints nothing.  With a count \<open>N\<close> of at least 2, when exactly one line of the wrapper
  module contains \<open>: process <target>\<close> and that line has the instance-declaration shape
  (\<open>match_instance\<close> yields its indentation, instance name, module name and parameters, which
  are the pieces of the line), the line is replaced by the \<open>N\<close> texts
  \<open><indent><name>_<i> : process <module>(<params>);\<close> for \<open>i = 1, ..., N\<close>, each ended by a
  line feed, and every other line of the model stays as it is.  The \<open>N\<close> texts are \<open>N\<close>
  lines: splitting their concatenation into lines gives them back.
\<close>

theorem replicate_single_instance:
  "(redundancy (fault_model eng) \<le> 1
      \<longrightarrow> replicate_for_redundancy eng smv_content = ([], smv_content))
   \<and> (2 \<le> redundancy (fault_model eng)
       \<and> find_module smv_content ''NominalR'' = Inr (s, e)
       \<and> slice s e (splitlines smv_content) = before @ [line] @ after
       \<and> contains line ('': process '' @ target_module (fault_model eng))
       \<and> (\<forall>l \<in> set (before @ after).
             \<not> contains l ('': process '' @ target_module (fault_model eng)))
       \<and> match_instance line = Some (indent, instance_name, module_name, params)
      \<longrightarrow> replicate_for_redundancy eng smv_content =
            ([], concat (take s (splitlines smv_content)) @ concat before
                 @ concat (map (\<lambda>i. indent @ instance_name @ ''_'' @ str_int i @ '' : process ''
                                  @ module_name @ ''('' @ params @ '');\<newline>'')
                             [1..redundancy (fault_model eng)])
                 @ concat after @ concat (drop e (splitlines smv_content)))
          \<and> int (length [1..redundancy (fault_model eng)]) = redundancy (fault_model eng)
          \<and> splitlines (concat (map (\<lambda>i. indent @ instance_name @ ''_'' @ str_int i
                                  @ '' : process '' @ module_name @ ''('' @ params @ '');\<newline>'')
                             [1..redundancy (fault_model eng)]))
             = map (\<lambda>i. indent @ instance_name @ ''_'' @ str_int i @ '' : process ''
                        @ module_name @ ''('' @ params @ '');\<newline>'')
                   [1..redundancy (fault_model eng)]
          \<and> (\<exists>w1 w2 w3 rest.
                line = indent @ instance_name @ w1 @ '':'' @ w2 @ ''process'' @ w3 @ module_name
                         @ ''('' @ params @ '');'' @ rest
                \<and> (\<forall>c \<in> set indent. isspace c)
                \<and> instance_name \<noteq> [] \<and> (\<forall>c \<in> set instance_name. isword c)
                \<and> (\<forall>c \<in> set (w1 @ w2 @ w3). isspace c) \<and> w3 \<noteq> []
                \<and> module_name \<noteq> [] \<and> (\<forall>c \<in> set module_name. isword c)
                \<and> CHR ''\<newline>'' \<notin> set params))"
proof (intro conjI impI)
  assume "redundancy (fault_model eng) \<le> 1"
  then show "replicate_for_redundancy eng smv_content = ([], smv_content)"
    by (simp add: replicate_for_redundancy_def Let_def)
next
  let ?t = "target_module (fault_model eng)"
  let ?n = "redundancy (fault_model eng)"
  let ?inst = "\<lambda>i. indent @ instance_name @ ''_'' @ str_int i @ '' : process ''
                    @ module_name @ ''('' @ params @ '');\<newline>''"
  let ?body = "\<lambda>i. indent @ instance_name @ ''_'' @ str_int i @ '' : process ''
                    @ module_name @ ''('' @ params @ '');''"
  assume h: "2 \<le> ?n
       \<and> find_module smv_content ''NominalR'' = Inr (s, e)
       \<and> slice s e (splitlines smv_content) = before @ [line] @ after
       \<and> contains line ('': process '' @ ?t)
       \<and> (\<forall>l \<in> set (before @ after). \<not> contains l ('': process '' @ ?t))
       \<and> match_instance line = Some (indent, instance_name, module_name, params)"
  then have other: "concat (map (replicate_line ?t ?n) before) = before"
    "concat (map (replicate_line ?t ?n) after) = after"
    by (auto intro: replicate_line_other)
  from h have this_line: "replicate_line ?t ?n line
      = map (new_instance indent instance_name module_name params) [1..?n]"
    by (simp add: replicate_line_def)
  have inst: "new_instance indent instance_name module_name params = ?inst"
    by (rule ext) (simp add: new_instance_def)
  from h have found: "\<exists>l \<in> set (slice s e (splitlines smv_content)).
      contains l ('': process '' @ ?t)"
    by auto
  from h have "1 < ?n" by simp
  with h found have "replicate_for_redundancy eng smv_content =
      ([], concat (take s (splitlines smv_content))
           @ concat (concat (map (replicate_line ?t ?n) (before @ [line] @ after)))
           @ concat (drop e (splitlines smv_content)))"
    using replicate_for_redundancy_found [of eng smv_content s e] by simp
  then show "replicate_for_redundancy eng smv_content =
            ([], concat (take s (splitlines smv_content)) @ concat before
                 @ concat (map ?inst [1..?n])
                 @ concat after @ concat (drop e (splitlines smv_content)))"
    using other this_line by (simp add: inst)
  from h show "int (length [1..?n]) = ?n" by simp
  from h have sound: "\<exists>w1 w2 w3 rest.
                line = indent @ instance_name @ w1 @ '':'' @ w2 @ ''process'' @ w3 @ module_name
                         @ ''('' @ params @ '');'' @ rest
                \<and> (\<forall>c \<in> set indent. isspace c)
                \<and> instance_name \<noteq> [] \<and> (\<forall>c \<in> set instance_name. isword c)
                \<and> (\<forall>c \<in> set (w1 @ w2 @ w3). isspace c) \<and> w3 \<noteq> []
                \<and> module_name \<noteq> [] \<and> (\<forall>c \<in> set module_name. isword c)
                \<and> CHR ''\<newline>'' \<notin> set params"
    using match_instance_sound [of line indent instance_name "module_name" params] by blast
  then show "\<exists>w1 w2 w3 rest.
                line = indent @ instance_name @ w1 @ '':'' @ w2 @ ''process'' @ w3 @ module_name
                         @ ''('' @ params @ '');'' @ rest
                \<and> (\<forall>c \<in> set indent. isspace c)
                \<and> instance_name \<noteq> [] \<and> (\<forall>c \<in> set instance_name. isword c)
                \<and> (\<forall>c \<in> set (w1 @ w2 @ w3). isspace c) \<and> w3 \<noteq> []
                \<and> module_name \<noteq> [] \<and> (\<forall>c \<in> set module_name. isword c)
                \<and> CHR ''\<newline>'' \<notin> set params" .
  from sound obtain w1 w2 w3 rest where
    line: "line = indent @ instance_name @ w1 @ '':'' @ w2 @ ''process'' @ w3 @ module_name
                         @ ''('' @ params @ '');'' @ rest"
    by blast
  from h have "line \<in> set (slice s e (splitlines smv_content))" by simp
  then have "line \<in> set (splitlines smv_content)"
    unfolding slice_def by (meson in_set_takeD in_set_dropD)
  then obtain body t where bt: "line = body @ t" "\<forall>c \<in> set body. \<not> islinebreak c"
    "\<forall>c \<in> set t. islinebreak c"
    using splitlines_line_shape by blast
  from line have "line = (indent @ instance_name @ w1 @ '':'' @ w2 @ ''process'' @ w3
      @ module_name @ ''('' @ params @ '')'') @ CHR '';'' # rest"
    by simp
  moreover have "\<not> islinebreak CHR '';''" by (simp add: islinebreak_def)
  ultimately have "set (indent @ instance_name @ w1 @ '':'' @ w2 @ ''process'' @ w3
      @ module_name @ ''('' @ params @ '')'') \<subseteq> set body"
    using bt(1,3) by (rule prefix_before_plain_char [rotated 2])
  with bt(2) have plain: "\<forall>c \<in> set indent \<union> set instance_name \<union> set module_name \<union> set params.
      \<not> islinebreak c"
    by auto
  have "\<forall>b \<in> set (map ?body [1..?n]). \<forall>c \<in> set b. \<not> islinebreak c"
    using plain str_int_plain by (auto simp: islinebreak_def)
  then have "splitlines (concat (map (\<lambda>b. b @ ''\<newline>'') (map ?body [1..?n])))
      = map (\<lambda>b. b @ ''\<newline>'') (map ?body [1..?n])"
    by (rule splitlines_lines)
  then show "splitlines (concat (map ?inst [1..?n])) = map ?inst [1..?n]"
    by (simp add: comp_def)
qed

text \<open>A wrapper with one instance of \<open>Sensor\<close>, replicated three times; and the same text
  with a count of 1.\<close>

theorem replicate_single_instance_witness:
  "replicate_for_redundancy
     \<lparr>fault_model = \<lparr>model_file = ''m.smv'', target_module = ''Sensor'', redundancy = 3,
        faults = []\<rparr>, injector = []\<rparr>
     ''MODULE NominalR\<newline>VAR\<newline>  s : process Sensor(a, b);\<newline>MODULE Sensor\<newline>''
   = ([], ''MODULE NominalR\<newline>VAR\<newline>  s_1 : process Sensor(a, b);\<newline>  s_2 : process Sensor(a, b);\<newline>  s_3 : process Sensor(a, b);\<newline>MODULE Sensor\<newline>'')
   \<and> replicate_for_redundancy
     \<lparr>fault_model = \<lparr>model_file = ''m.smv'', target_module = ''Sensor'', redundancy = 1,
        faults = []\<rparr>, injector = []\<rparr>
     ''MODULE NominalR\<newline>VAR\<newline>  s : process Sensor(a, b);\<newline>MODULE Sensor\<newline>''
   = ([], ''MODULE NominalR\<newline>VAR\<newline>  s : process Sensor(a, b);\<newline>MODULE Sensor\<newline>'')"
proof -
  let ?eng = "\<lparr>fault_model = \<lparr>model_file = ''m.smv'', target_module = ''Sensor'',
        redundancy = 3, faults = []\<rparr>, injector = []\<rparr>"
  let ?eng1 = "\<lparr>fault_model = \<lparr>model_file = ''m.smv'', target_module = ''Sensor'',
        redundancy = 1, faults = []\<rparr>, injector = []\<rparr>"
  let ?c = "''MODULE NominalR\<newline>VAR\<newline>  s : process Sensor(a, b);\<newline>MODULE Sensor\<newline>''"
  let ?line = "''  s : process Sensor(a, b);\<newline>''"
  have ls: "splitlines ?c = [''MODULE NominalR\<newline>'', ''VAR\<newline>'', ?line, ''MODULE Sensor\<newline>'']"
    by code_simp
  have h1: "2 \<le> redundancy (fault_model ?eng)" by simp
  have h2: "find_module ?c ''NominalR'' = Inr (0, 3)" by code_simp
  have h3: "slice 0 3 (splitlines ?c) = [''MODULE NominalR\<newline>'', ''VAR\<newline>''] @ [?line] @ []"
    unfolding ls by (simp add: slice_def)
  have h4: "contains ?line ('': process '' @ target_module (fault_model ?eng))"
    by simp
  have h5: "\<forall>l \<in> set ([''MODULE NominalR\<newline>'', ''VAR\<newline>''] @ []).
      \<not> contains l ('': process '' @ target_module (fault_model ?eng))"
    by simp
  have h6: "match_instance ?line = Some (''  '', ''s'', ''Sensor'', ''a, b'')"
    by code_simp
  from replicate_single_instance [of ?eng ?c 0 3 "[''MODULE NominalR\<newline>'', ''VAR\<newline>'']" ?line "[]"
      "''  ''" "''s''" "''Sensor''" "''a, b''"] h1 h2 h3 h4 h5 h6
  have "replicate_for_redundancy ?eng ?c =
      ([], concat (take 0 (splitlines ?c)) @ concat [''MODULE NominalR\<newline>'', ''VAR\<newline>'']
           @ concat (map (\<lambda>i. ''  '' @ ''s'' @ ''_'' @ str_int i @ '' : process ''
                                  @ ''Sensor'' @ ''('' @ ''a, b'' @ '');\<newline>'')
                             [1..redundancy (fault_model ?eng)])
           @ concat [] @ concat (drop 3 (splitlines ?c)))"
    by blast
  also have "\<dots> = ([], ''MODULE NominalR\<newline>VAR\<newline>  s_1 : process Sensor(a, b);\<newline>  s_2 : process Sensor(a, b);\<newline>  s_3 : process Sensor(a, b);\<newline>MODULE Sensor\<newline>'')"
    by code_simp
  finally have a: "replicate_for_redundancy ?eng ?c =
      ([], ''MODULE NominalR\<newline>VAR\<newline>  s_1 : process Sensor(a, b);\<newline>  s_2 : process Sensor(a, b);\<newline>  s_3 : process Sensor(a, b);\<newline>MODULE Sensor\<newline>'')" .
  have "redundancy (fault_model ?eng1) \<le> 1" by simp
  with replicate_single_instance [of ?eng1 ?c] have "replicate_for_redundancy ?eng1 ?c = ([], ?c)"
    by blast
  with a show ?thesis by simp
qed

text \<open>
  Claim C10.  With a redundancy count \<open>N\<close> of at least 2 and a wrapper module holding at least
  one line that contains \<open>: process <target>\<close>, the wrapper is rebuilt line by line: every
  line that contains the substring and has the instance-declaration shape becomes its \<open>N\<close>
  suffixed instances, every line that contains it without the shape and every line that does
  not contain it is kept.  The test is a substring test: an instance line of a module whose
  name is the target's name followed by further word characters contains the substring too
  and is replicated, under the longer module name.
\<close>

theorem replicate_every_matching_line:
  "(2 \<le> redundancy (fault_model eng)
      \<and> find_module smv_content ''NominalR'' = Inr (s, e)
      \<and> (\<exists>l \<in> set (slice s e (splitlines smv_content)).
            contains l ('': process '' @ target_module (fault_model eng)))
     \<longrightarrow> replicate_for_redundancy eng smv_content =
          ([], concat (take s (splitlines smv_content))
               @ concat (concat (map (replicate_line (target_module (fault_model eng))
                                        (redundancy (fault_model eng)))
                                     (slice s e (splitlines smv_content))))
               @ concat (drop e (splitlines smv_content))))
   \<and> (contains line ('': process '' @ target)
        \<and> match_instance line = Some (indent, instance_name, module_name, params)
      \<longrightarrow> replicate_line target n line =
            map (\<lambda>i. indent @ instance_name @ ''_'' @ str_int i @ '' : process ''
                      @ module_name @ ''('' @ params @ '');\<newline>'') [1..n])
   \<and> (\<not> contains line ('': process '' @ target) \<or> match_instance line = None
      \<longrightarrow> replicate_line target n line = [line])
   \<and> ((\<forall>c \<in> set ind. isspace c) \<and> name \<noteq> [] \<and> (\<forall>c \<in> set name. isword c)
        \<and> target \<noteq> [] \<and> (\<forall>c \<in> set (target @ more_name). isword c)
        \<and> CHR ''\<newline>'' \<notin> set ps \<and> CHR '';'' \<notin> set ps
      \<longrightarrow> replicate_line target n
              (ind @ name @ '' : process '' @ (target @ more_name) @ ''('' @ ps @ '');'' @ rest) =
            map (\<lambda>i. ind @ name @ ''_'' @ str_int i @ '' : process ''
                      @ (target @ more_name) @ ''('' @ ps @ '');\<newline>'') [1..n])"
proof (intro conjI impI)
  assume "2 \<le> redundancy (fault_model eng)
      \<and> find_module smv_content ''NominalR'' = Inr (s, e)
      \<and> (\<exists>l \<in> set (slice s e (splitlines smv_content)).
            contains l ('': process '' @ target_module (fault_model eng)))"
  then show "replicate_for_redundancy eng smv_content =
          ([], concat (take s (splitlines smv_content))
               @ concat (concat (map (replicate_line (target_module (fault_model eng))
                                        (redundancy (fault_model eng)))
                                     (slice s e (splitlines smv_content))))
               @ concat (drop e (splitlines smv_content)))"
    using replicate_for_redundancy_found [of eng smv_content s e] by auto
next
  assume "contains line ('': process '' @ target)
        \<and> match_instance line = Some (indent, instance_name, module_name, params)"
  then show "replicate_line target n line =
            map (\<lambda>i. indent @ instance_name @ ''_'' @ str_int i @ '' : process ''
                      @ module_name @ ''('' @ params @ '');\<newline>'') [1..n]"
    by (simp add: replicate_line_def new_instance_def)
next
  assume "\<not> contains line ('': process '' @ target) \<or> match_instance line = None"
  then show "replicate_line target n line = [line]"
    by (cases "contains line ('': process '' @ target)") (simp_all add: replicate_line_def)
next
  let ?line = "ind @ name @ '' : process '' @ (target @ more_name) @ ''('' @ ps @ '');'' @ rest"
  assume h: "(\<forall>c \<in> set ind. isspace c) \<and> name \<noteq> [] \<and> (\<forall>c \<in> set name. isword c)
        \<and> target \<noteq> [] \<and> (\<forall>c \<in> set (target @ more_name). isword c)
        \<and> CHR ''\<newline>'' \<notin> set ps \<and> CHR '';'' \<notin> set ps"
  then have m: "match_instance ?line = Some (ind, name, target @ more_name, ps)"
    by (intro match_instance_complete) auto
  have "?line = (ind @ name @ '' '') @ ('': process '' @ target) @ (more_name @ ''('' @ ps @ '');'' @ rest)"
    by simp
  then have "contains ?line ('': process '' @ target)"
    unfolding contains_iff by blast
  with m show "replicate_line target n ?line =
            map (\<lambda>i. ind @ name @ ''_'' @ str_int i @ '' : process ''
                      @ (target @ more_name) @ ''('' @ ps @ '');\<newline>'') [1..n]"
    by (simp add: replicate_line_def new_instance_def)
qed

text \<open>A wrapper with an instance of \<open>Sensor\<close> and an instance of \<open>Sensor2\<close>, target \<open>Sensor\<close>,
  count 2: both lines are replicated, and the comment after the second is dropped.\<close>

theorem replicate_every_matching_line_witness:
  "replicate_for_redundancy
     \<lparr>fault_model = \<lparr>model_file = ''m.smv'', target_module = ''Sensor'', redundancy = 2,
        faults = []\<rparr>, injector = []\<rparr>
     ''MODULE NominalR\<newline>VAR\<newline>  s : process Sensor(a, b);\<newline>  t : process Sensor2(c); -- x\<newline>MODULE Sensor\<newline>''
   = ([], ''MODULE NominalR\<newline>VAR\<newline>  s_1 : process Sensor(a, b);\<newline>  s_2 : process Sensor(a, b);\<newline>  t_1 : process Sensor2(c);\<newline>  t_2 : process Sensor2(c);\<newline>MODULE Sensor\<newline>'')"
proof -
  let ?eng = "\<lparr>fault_model = \<lparr>model_file = ''m.smv'', target_module = ''Sensor'',
        redundancy = 2, faults = []\<rparr>, injector = []\<rparr>"
  let ?c = "''MODULE NominalR\<newline>VAR\<newline>  s : process Sensor(a, b);\<newline>  t : process Sensor2(c); -- x\<newline>MODULE Sensor\<newline>''"
  have ls: "splitlines ?c = [''MODULE NominalR\<newline>'', ''VAR\<newline>'', ''  s : process Sensor(a, b);\<newline>'',
      ''  t : process Sensor2(c); -- x\<newline>'', ''MODULE Sensor\<newline>'']"
    by code_simp
  have h1: "2 \<le> redundancy (fault_model ?eng)" by simp
  have h2: "find_module ?c ''NominalR'' = Inr (0, 4)" by code_simp
  have h3: "\<exists>l \<in> set (slice 0 4 (splitlines ?c)).
            contains l ('': process '' @ target_module (fault_model ?eng))"
    unfolding ls by (simp add: slice_def)
  have l1: "replicate_line ''Sensor'' 2 ''  s : process Sensor(a, b);\<newline>''
      = [''  s_1 : process Sensor(a, b);\<newline>'', ''  s_2 : process Sensor(a, b);\<newline>'']"
  proof -
    have "replicate_line ''Sensor'' 2
              (''  '' @ ''s'' @ '' : process '' @ (''Sensor'' @ []) @ ''('' @ ''a, b'' @ '');'' @ ''\<newline>'') =
            map (\<lambda>i. ''  '' @ ''s'' @ ''_'' @ str_int i @ '' : process ''
                      @ (''Sensor'' @ []) @ ''('' @ ''a, b'' @ '');\<newline>'') [1..2]"
      using replicate_every_matching_line [where ind = "''  ''" and name = "''s''" and target = "''Sensor''"
          and more_name = "[]" and ps = "''a, b''" and n = 2 and rest = "''\<newline>''"]
      by (simp add: isspace_def isword_def)
    also have "\<dots> = [''  s_1 : process Sensor(a, b);\<newline>'', ''  s_2 : process Sensor(a, b);\<newline>'']"
      by code_simp
    finally show ?thesis by simp
  qed
  have l2: "replicate_line ''Sensor'' 2 ''  t : process Sensor2(c); -- x\<newline>''
      = [''  t_1 : process Sensor2(c);\<newline>'', ''  t_2 : process Sensor2(c);\<newline>'']"
  proof -
    have "replicate_line ''Sensor'' 2
              (''  '' @ ''t'' @ '' : process '' @ (''Sensor'' @ ''2'') @ ''('' @ ''c'' @ '');'' @ '' -- x\<newline>'') =
            map (\<lambda>i. ''  '' @ ''t'' @ ''_'' @ str_int i @ '' : process ''
                      @ (''Sensor'' @ ''2'') @ ''('' @ ''c'' @ '');\<newline>'') [1..2]"
      using replicate_every_matching_line [where ind = "''  ''" and name = "''t''" and target = "''Sensor''"
          and more_name = "''2''" and ps = "''c''" and n = 2 and rest = "'' -- x\<newline>''"]
      by (simp add: isspace_def isword_def)
    also have "\<dots> = [''  t_1 : process Sensor2(c);\<newline>'', ''  t_2 : process Sensor2(c);\<newline>'']"
      by code_simp
    finally show ?thesis by simp
  qed
  have l0: "replicate_line ''Sensor'' 2 ''MODULE NominalR\<newline>'' = [''MODULE NominalR\<newline>'']"
    "replicate_line ''Sensor'' 2 ''VAR\<newline>'' = [''VAR\<newline>'']"
    using replicate_every_matching_line [where line = "''MODULE NominalR\<newline>''"
        and target = "''Sensor''" and n = 2]
      replicate_every_matching_line [where line = "''VAR\<newline>''" and target = "''Sensor''" and n = 2]
    by simp_all
  from replicate_every_matching_line [of ?eng ?c 0 4] h1 h2 h3
  have "replicate_for_redundancy ?eng ?c =
          ([], concat (take 0 (splitlines ?c))
               @ concat (concat (map (replicate_line (target_module (fault_model ?eng))
                                        (redundancy (fault_model ?eng)))
                                     (slice 0 4 (splitlines ?c))))
               @ concat (drop 4 (splitlines ?c)))"
    by blast
  also have "\<dots> = ([], ''MODULE NominalR\<newline>VAR\<newline>  s_1 : process Sensor(a, b);\<newline>  s_2 : process Sensor(a, b);\<newline>  t_1 : process Sensor2(c);\<newline>  t_2 : process Sensor2(c);\<newline>MODULE Sensor\<newline>'')"
    unfolding ls by (simp add: slice_def l0 l1 l2)
  finally show ?thesis .
qed

section \<open>Position of the next-state assignment of the fault mode\<close>

lemma insert_position_loop_next:
  "k < length ls \<Longrightarrow> is_next_line (ls ! k) \<Longrightarrow> (\<forall>j<k. \<not> is_next_line (ls ! j))
     \<Longrightarrow> insert_position_loop ls i last_init = i + k"
proof (induction ls arbitrary: i last_init k)
  case Nil
  then show ?case by simp
next
  case (Cons l ls)
  show ?case
  proof (cases k)
    case 0
    with Cons.prems show ?thesis by (simp add: is_next_line_def)
  next
    case (Suc k')
    with Cons.prems have l: "\<not> is_next_line l" by auto
    from Suc Cons.prems have "k' < length ls" "is_next_line (ls ! k')"
      "\<forall>j<k'. \<not> is_next_line (ls ! j)" by auto
    then have "\<And>i' last'. insert_position_loop ls i' last' = i' + k'"
      using Cons.IH by blast
    with l Suc show ?thesis by (auto simp: is_next_line_def)
  qed
qed

lemma insert_position_loop_no_next:
  "(\<forall>l \<in> set ls. \<not> is_next_line l) \<Longrightarrow> (\<forall>l \<in> set ls. \<not> is_init_line l)
     \<Longrightarrow> insert_position_loop ls i last_init = last_init + 1"
  by (induction ls arbitrary: i) (auto simp: is_next_line_def is_init_line_def)

lemma insert_position_loop_init:
  "(\<forall>l \<in> set ls. \<not> is_next_line l) \<Longrightarrow> m < length ls \<Longrightarrow> is_init_line (ls ! m)
     \<Longrightarrow> (\<forall>j. m < j \<and> j < length ls \<longrightarrow> \<not> is_init_line (ls ! j))
     \<Longrightarrow> insert_position_loop ls i last_init = i + m + 1"
proof (induction ls arbitrary: i last_init m)
  case Nil
  then show ?case by simp
next
  case (Cons l ls)
  show ?case
  proof (cases m)
    case 0
    have "\<forall>l \<in> set ls. \<not> is_init_line l"
    proof
      fix x assume "x \<in> set ls"
      then obtain i where i: "i < length ls" "ls ! i = x" by (auto simp: in_set_conv_nth)
      with 0 have "m < Suc i \<and> Suc i < length (l # ls)" by simp
      with Cons.prems(4) have "\<not> is_init_line ((l # ls) ! Suc i)" by blast
      with i show "\<not> is_init_line x" by simp
    qed
    with Cons.prems 0 show ?thesis
      by (auto simp: insert_position_loop_no_next is_init_line_def)
  next
    case (Suc m')
    with Cons.prems have "\<forall>l \<in> set ls. \<not> is_next_line l" "m' < length ls"
      "is_init_line (ls ! m')" "\<forall>j. m' < j \<and> j < length ls \<longrightarrow> \<not> is_init_line (ls ! j)"
      by auto
    then have "\<And>i' last'. insert_position_loop ls i' last' = i' + m' + 1"
      using Cons.IH by blast
    with Cons.prems Suc show ?thesis by (auto simp: is_next_line_def)
  qed
qed

text \<open>The value of \<open>_find_insert_position_for_next_fault_mode\<close> on a line list, by the
  lines after index \<open>a\<close>: the first next-state line; else one past the last initial-value
  line; else \<open>a + 1\<close>.\<close>

lemma insert_position_cases:
  "(a < n \<and> n < length lines \<and> is_next_line (lines ! n)
      \<and> (\<forall>j. a < j \<and> j < n \<longrightarrow> \<not> is_next_line (lines ! j))
     \<longrightarrow> find_insert_position_for_next_fault_mode lines a = n)
   \<and> ((\<forall>j. a < j \<and> j < length lines \<longrightarrow> \<not> is_next_line (lines ! j))
      \<and> a < m \<and> m < length lines \<and> is_init_line (lines ! m)
      \<and> (\<forall>j. m < j \<and> j < length lines \<longrightarrow> \<not> is_init_line (lines ! j))
     \<longrightarrow> find_insert_position_for_next_fault_mode lines a = m + 1)
   \<and> ((\<forall>j. a < j \<and> j < length lines
           \<longrightarrow> \<not> is_next_line (lines ! j) \<and> \<not> is_init_line (lines ! j))
     \<longrightarrow> find_insert_position_for_next_fault_mode lines a = a + 1)"
proof (intro conjI impI)
  let ?ls = "drop (a + 1) lines"
  {
    assume h: "a < n \<and> n < length lines \<and> is_next_line (lines ! n)
      \<and> (\<forall>j. a < j \<and> j < n \<longrightarrow> \<not> is_next_line (lines ! j))"
    then have "n - (a + 1) < length ?ls" "is_next_line (?ls ! (n - (a + 1)))"
      "\<forall>j<n - (a + 1). \<not> is_next_line (?ls ! j)"
      by auto
    then have "insert_position_loop ?ls (a + 1) a = (a + 1) + (n - (a + 1))"
      by (rule insert_position_loop_next)
    with h show "find_insert_position_for_next_fault_mode lines a = n"
      by (simp add: find_insert_position_for_next_fault_mode_def)
  }
  {
    assume h: "(\<forall>j. a < j \<and> j < length lines \<longrightarrow> \<not> is_next_line (lines ! j))
      \<and> a < m \<and> m < length lines \<and> is_init_line (lines ! m)
      \<and> (\<forall>j. m < j \<and> j < length lines \<longrightarrow> \<not> is_init_line (lines ! j))"
    then have "\<forall>l \<in> set ?ls. \<not> is_next_line l"
      by (auto simp: in_set_conv_nth)
    moreover from h have "m - (a + 1) < length ?ls" "is_init_line (?ls ! (m - (a + 1)))"
      by auto
    moreover have "\<forall>j. m - (a + 1) < j \<and> j < length ?ls \<longrightarrow> \<not> is_init_line (?ls ! j)"
    proof (intro allI impI)
      fix j assume j: "m - (a + 1) < j \<and> j < length ?ls"
      with h have "m < a + 1 + j \<and> a + 1 + j < length lines" by auto
      with h have "\<not> is_init_line (lines ! (a + 1 + j))" by blast
      moreover from h have "a + 1 \<le> length lines" by simp
      ultimately show "\<not> is_init_line (?ls ! j)" by (simp add: nth_drop)
    qed
    ultimately have "insert_position_loop ?ls (a + 1) a = (a + 1) + (m - (a + 1)) + 1"
      by (rule insert_position_loop_init)
    with h show "find_insert_position_for_next_fault_mode lines a = m + 1"
      by (simp add: find_insert_position_for_next_fault_mode_def)
  }
  {
    assume h: "\<forall>j. a < j \<and> j < length lines
           \<longrightarrow> \<not> is_next_line (lines ! j) \<and> \<not> is_init_line (lines ! j)"
    then have "\<forall>l \<in> set ?ls. \<not> is_next_line l" "\<forall>l \<in> set ?ls. \<not> is_init_line l"
      by (auto simp: in_set_conv_nth)
    then have "insert_position_loop ?ls (a + 1) a = a + 1"
      by (rule insert_position_loop_no_next)
    then show "find_insert_position_for_next_fault_mode lines a = a + 1"
      by (simp add: find_insert_position_for_next_fault_mode_def)
  }
qed

section \<open>Enumeration of the fault modes and grouping by variable\<close>

lemma dedup_keep_first_snoc:
  "dedup_keep_first (xs @ [x]) =
     (if x \<in> set xs then dedup_keep_first xs else dedup_keep_first xs @ [x])"
  by (simp add: dedup_keep_first_def)

lemma dedup_keep_first_Nil: "dedup_keep_first [] = []"
  by (simp add: dedup_keep_first_def)

lemma set_dedup_keep_first: "set (dedup_keep_first xs) = set xs"
  by (simp add: dedup_keep_first_def)

lemma distinct_dedup_keep_first: "distinct (dedup_keep_first xs)"
  by (simp add: dedup_keep_first_def)

lemma dedup_keep_first_Cons:
  "dedup_keep_first (x # xs) = x # dedup_keep_first (filter (\<lambda>y. y \<noteq> x) xs)"
proof (induction xs rule: rev_induct)
  case Nil
  show ?case by (simp add: dedup_keep_first_def)
next
  case (snoc y xs)
  have "dedup_keep_first ((x # xs) @ [y]) =
     (if y \<in> set (x # xs) then dedup_keep_first (x # xs) else dedup_keep_first (x # xs) @ [y])"
    by (rule dedup_keep_first_snoc)
  with snoc show ?case
    by (auto simp: dedup_keep_first_snoc)
qed

lemma enum_modes_eq:
  "enum_modes (''none'' # map (\<lambda>v. ''stuck_'' @ v) (dedup_keep_first vs)) fs
     = ''none'' # map (\<lambda>v. ''stuck_'' @ v) (dedup_keep_first (vs @ map fault_value fs))"
proof (induction fs arbitrary: vs)
  case Nil
  show ?case by simp
next
  case (Cons f fs)
  have mem: "''stuck_'' @ fault_value f \<in> set (''none'' # map (\<lambda>v. ''stuck_'' @ v) (dedup_keep_first vs))
      \<longleftrightarrow> fault_value f \<in> set vs"
    by (auto simp: set_dedup_keep_first)
  have "enum_modes (''none'' # map (\<lambda>v. ''stuck_'' @ v) (dedup_keep_first vs)) (f # fs)
      = enum_modes (''none'' # map (\<lambda>v. ''stuck_'' @ v) (dedup_keep_first (vs @ [fault_value f]))) fs"
    using mem by (simp add: Let_def dedup_keep_first_snoc del: set_simps)
  also have "\<dots> = ''none'' # map (\<lambda>v. ''stuck_'' @ v)
      (dedup_keep_first ((vs @ [fault_value f]) @ map fault_value fs))"
    by (rule Cons.IH)
  finally show ?case by simp
qed

lemma get_fault_mode_enum_eq:
  "get_fault_mode_enum fs =
     join '', '' (''none'' # map (\<lambda>v. ''stuck_'' @ v) (dedup_keep_first (map fault_value fs)))"
  using enum_modes_eq [of "[]" fs]
  by (simp add: get_fault_mode_enum_def dedup_keep_first_Nil)

lemma faults_by_var_eq:
  "faults_by_var fs =
     map (\<lambda>v. (v, filter (\<lambda>f. variable f = v) fs)) (dedup_keep_first (map variable fs))"
proof (induction fs rule: rev_induct)
  case Nil
  show ?case by (simp add: faults_by_var_def dedup_keep_first_Nil)
next
  case (snoc f fs)
  let ?G = "map (\<lambda>v. (v, filter (\<lambda>f. variable f = v) fs)) (dedup_keep_first (map variable fs))"
  have keys: "fst ` set ?G = variable ` set fs"
    by (auto simp: set_dedup_keep_first image_iff)
  have "faults_by_var (fs @ [f]) = add_fault ?G f"
    using snoc by (simp add: faults_by_var_def)
  also have "\<dots> = map (\<lambda>v. (v, filter (\<lambda>g. variable g = v) (fs @ [f])))
      (dedup_keep_first (map variable (fs @ [f])))"
  proof (cases "variable f \<in> variable ` set fs")
    case True
    then show ?thesis
      unfolding add_fault_def Let_def keys
      by (auto simp: dedup_keep_first_snoc)
  next
    case False
    then have "filter (\<lambda>g. variable g = variable f) fs = []"
      by (auto simp: filter_empty_conv image_iff)
    with False show ?thesis
      unfolding add_fault_def Let_def keys
      by (auto simp: dedup_keep_first_snoc set_dedup_keep_first)
  qed
  finally show ?case .
qed

section \<open>Assignment Rewriter\<close>

lemma match_next_header_Some:
  assumes "match_next_header v s = Some (header, r)"
  shows "s = header @ r
     \<and> (\<exists>w1 w2. header = ''next('' @ v @ '')'' @ w1 @ '':='' @ w2 @ ''case''
           \<and> (\<forall>c \<in> set (w1 @ w2). isspace c))"
proof -
  let ?lit = "''next('' @ v @ '')''"
  define r1 where "r1 = drop (length ?lit) s"
  define r2 where "r2 = dropWhile isspace r1"
  define r3 where "r3 = drop 2 r2"
  define r4 where "r4 = dropWhile isspace r3"
  note defs = r1_def r2_def r3_def r4_def
  from assms have c: "startswith s ?lit" "startswith r2 '':=''" "startswith r4 ''case''"
    and h: "header = ?lit @ takeWhile isspace r1 @ '':='' @ takeWhile isspace r3 @ ''case''"
    and r: "r = drop 4 r4"
    unfolding match_next_header_def Let_def defs
    by (auto split: if_splits)
  from c(1) have e0: "s = ?lit @ r1"
    unfolding r1_def startswith_iff by (metis append_eq_conv_conj)
  have e1: "r1 = takeWhile isspace r1 @ r2" by (simp add: r2_def)
  from c(2) have e2: "r2 = '':='' @ r3" by (auto simp: startswith_iff r3_def)
  have e3: "r3 = takeWhile isspace r3 @ r4" by (simp add: r4_def)
  from c(3) r have e4: "r4 = ''case'' @ r" by (auto simp: startswith_iff)
  have "s = header @ r"
    unfolding h by (metis e0 e1 e2 e3 e4 append_assoc)
  moreover have "\<forall>c \<in> set (takeWhile isspace r1 @ takeWhile isspace r3). isspace c"
    by (auto dest: set_takeWhileD)
  moreover from h have "header = ''next('' @ v @ '')'' @ takeWhile isspace r1 @ '':=''
      @ takeWhile isspace r3 @ ''case''"
    by simp
  ultimately show ?thesis by blast
qed

lemma match_next_case_Some:
  assumes "match_next_case v s = Some (header, cases, post)"
  shows "s = header @ cases @ ''esac;'' @ post
     \<and> (\<exists>w1 w2. header = ''next('' @ v @ '')'' @ w1 @ '':='' @ w2 @ ''case''
           \<and> (\<forall>c \<in> set (w1 @ w2). isspace c))
     \<and> (\<forall>i<length cases. \<not> startswith (drop i (cases @ ''esac;'' @ post)) ''esac;'')"
proof -
  from assms obtain r where h: "match_next_header v s = Some (header, r)"
    and f: "find_split ''esac;'' r = Some (cases, post)"
    by (auto simp: match_next_case_def split: option.splits)
  from f have r: "r = cases @ ''esac;'' @ post" by (rule find_split_Some)
  from f have "\<forall>i<length cases. \<not> startswith (drop i r) ''esac;''"
    by (auto dest: find_split_first)
  with r match_next_header_Some [OF h] show ?thesis by simp
qed

lemma search_next_case_Some:
  assumes "search_next_case v text = Some (pre, header, cases, post)"
  shows "text = pre @ header @ cases @ ''esac;'' @ post
     \<and> match_next_case v (header @ cases @ ''esac;'' @ post) = Some (header, cases, post)
     \<and> (\<forall>i<length pre. match_next_case v (drop i text) = None)"
  using assms
proof (induction "text" arbitrary: pre)
  case Nil
  then show ?case by simp
next
  case (Cons c cs)
  show ?case
  proof (cases "match_next_case v (c # cs)")
    case (Some m)
    with Cons.prems have m: "m = (header, cases, post)" "pre = []"
      by (auto split: prod.splits)
    with Some have "c # cs = header @ cases @ ''esac;'' @ post"
      using match_next_case_Some [of v "c # cs" header cases post] by simp
    with Some m show ?thesis by simp
  next
    case None
    with Cons.prems obtain pre' where p: "search_next_case v cs = Some (pre', header, cases, post)"
      "pre = c # pre'"
      by auto
    note IH = Cons.IH [OF p(1)]
    have ih1: "cs = pre' @ header @ cases @ ''esac;'' @ post"
      by (rule IH [THEN conjunct1])
    have ih2: "match_next_case v (header @ cases @ ''esac;'' @ post) = Some (header, cases, post)"
      by (rule IH [THEN conjunct2, THEN conjunct1])
    have ih3: "\<forall>i<length pre'. match_next_case v (drop i cs) = None"
      by (rule IH [THEN conjunct2, THEN conjunct2])
    have all: "\<forall>i<length pre. match_next_case v (drop i (c # cs)) = None"
    proof (intro allI impI)
      fix i assume "i < length pre"
      with p(2) ih3 None show "match_next_case v (drop i (c # cs)) = None"
        by (cases i) auto
    qed
    have "c # cs = pre @ header @ cases @ ''esac;'' @ post"
      unfolding p(2) using ih1 by simp
    with ih2 all show ?thesis by blast
  qed
qed

lemma search_next_case_None:
  "search_next_case v text = None \<longleftrightarrow> (\<forall>i<length text. match_next_case v (drop i text) = None)"
proof (induction "text")
  case Nil
  show ?case by simp
next
  case (Cons c cs)
  show ?case
  proof (cases "match_next_case v (c # cs)")
    case (Some m)
    then have "search_next_case v (c # cs) \<noteq> None" by (auto split: prod.splits)
    moreover from Some have "\<not> (\<forall>i<length (c # cs). match_next_case v (drop i (c # cs)) = None)"
      by force
    ultimately show ?thesis by blast
  next
    case None
    have "(\<forall>i<length (c # cs). match_next_case v (drop i (c # cs)) = None)
       \<longleftrightarrow> (\<forall>i<length cs. match_next_case v (drop i cs) = None)"
    proof
      assume a: "\<forall>i<length (c # cs). match_next_case v (drop i (c # cs)) = None"
      show "\<forall>i<length cs. match_next_case v (drop i cs) = None"
      proof (intro allI impI)
        fix i assume "i < length cs"
        then have "Suc i < length (c # cs)" by simp
        with a have "match_next_case v (drop (Suc i) (c # cs)) = None" by blast
        then show "match_next_case v (drop i cs) = None" by simp
      qed
    next
      assume a: "\<forall>i<length cs. match_next_case v (drop i cs) = None"
      show "\<forall>i<length (c # cs). match_next_case v (drop i (c # cs)) = None"
      proof (intro allI impI)
        fix i assume "i < length (c # cs)"
        with a None show "match_next_case v (drop i (c # cs)) = None"
          by (cases i) auto
      qed
    qed
    with None Cons.IH show ?thesis by simp
  qed
qed

lemma inject_into_next_assignment_Inr:
  "inject_into_next_assignment t v fs = Inr t' \<longleftrightarrow>
     (\<exists>pre header cases post.
        search_next_case v t = Some (pre, header, cases, post)
        \<and> t' = pre @ header @ ''\<newline>'' @ concat (map fault_case fs) @ cases @ ''    esac;'' @ post)"
  by (auto simp: inject_into_next_assignment_def Let_def split: option.splits)

lemma inject_each_chain:
  "inject_each groups t = Inr out \<longleftrightarrow>
     (\<exists>ts. length ts = length groups + 1 \<and> ts ! 0 = t \<and> ts ! length groups = out
        \<and> (\<forall>k<length groups. \<exists>pre header cases post.
              search_next_case (fst (groups ! k)) (ts ! k) = Some (pre, header, cases, post)
              \<and> ts ! (k + 1) = pre @ header @ ''\<newline>''
                    @ concat (map fault_case (snd (groups ! k))) @ cases @ ''    esac;'' @ post))"
  (is "?L groups t \<longleftrightarrow> (\<exists>ts. ?C groups t ts)")
proof (induction groups arbitrary: t)
  case Nil
  show ?case
  proof
    assume "inject_each [] t = Inr out"
    then have "?C [] t [t]" by simp
    then show "\<exists>ts. ?C [] t ts" by blast
  next
    assume "\<exists>ts. ?C [] t ts"
    then show "inject_each [] t = Inr out" by auto
  qed
next
  case (Cons g groups)
  obtain v fs where g: "g = (v, fs)" by (cases g)
  show ?case
  proof
    assume l: "inject_each (g # groups) t = Inr out"
    then obtain t' where t': "inject_into_next_assignment t v fs = Inr t'"
      and rest: "inject_each groups t' = Inr out"
      unfolding g by (auto split: sum.splits)
    from t' obtain pre header cases post where
      s: "search_next_case v t = Some (pre, header, cases, post)"
      and e: "t' = pre @ header @ ''\<newline>'' @ concat (map fault_case fs) @ cases @ ''    esac;'' @ post"
      unfolding inject_into_next_assignment_Inr by blast
    from rest Cons.IH [of t'] obtain ts where ts: "?C groups t' ts" by blast
    have "?C (g # groups) t (t # ts)"
    proof (intro conjI allI impI)
      show "length (t # ts) = length (g # groups) + 1" using ts by simp
      show "(t # ts) ! 0 = t" by simp
      show "(t # ts) ! length (g # groups) = out" using ts by simp
    next
      fix k assume k: "k < length (g # groups)"
      show "\<exists>pre header cases post.
              search_next_case (fst ((g # groups) ! k)) ((t # ts) ! k) = Some (pre, header, cases, post)
              \<and> (t # ts) ! (k + 1) = pre @ header @ ''\<newline>''
                    @ concat (map fault_case (snd ((g # groups) ! k))) @ cases @ ''    esac;'' @ post"
      proof (cases k)
        case 0
        with s e ts g show ?thesis by simp
      next
        case (Suc k')
        with k have "k' < length groups" by simp
        with ts have "\<exists>pre header cases post.
              search_next_case (fst (groups ! k')) (ts ! k') = Some (pre, header, cases, post)
              \<and> ts ! (k' + 1) = pre @ header @ ''\<newline>''
                    @ concat (map fault_case (snd (groups ! k'))) @ cases @ ''    esac;'' @ post"
          by blast
        with Suc show ?thesis by simp
      qed
    qed
    then show "\<exists>ts. ?C (g # groups) t ts" by blast
  next
    assume "\<exists>ts. ?C (g # groups) t ts"
    then obtain ts where len: "length ts = length (g # groups) + 1" and t0: "ts ! 0 = t"
      and tn: "ts ! length (g # groups) = out"
      and st: "\<forall>k<length (g # groups). \<exists>pre header cases post.
              search_next_case (fst ((g # groups) ! k)) (ts ! k) = Some (pre, header, cases, post)
              \<and> ts ! (k + 1) = pre @ header @ ''\<newline>''
                    @ concat (map fault_case (snd ((g # groups) ! k))) @ cases @ ''    esac;'' @ post"
      by blast
    from len obtain x ts' where xs: "ts = x # ts'" by (cases ts) auto
    with t0 have x: "x = t" by simp
    have "0 < length (g # groups)" by simp
    with st obtain pre header cases post where
      s: "search_next_case (fst ((g # groups) ! 0)) (ts ! 0) = Some (pre, header, cases, post)"
      and e: "ts ! (0 + 1) = pre @ header @ ''\<newline>''
                    @ concat (map fault_case (snd ((g # groups) ! 0))) @ cases @ ''    esac;'' @ post"
      by blast
    from s t0 g have s': "search_next_case v t = Some (pre, header, cases, post)" by simp
    from e xs g have e': "ts' ! 0 = pre @ header @ ''\<newline>''
                    @ concat (map fault_case fs) @ cases @ ''    esac;'' @ post" by simp
    from s' e' have step: "inject_into_next_assignment t v fs = Inr (ts' ! 0)"
      unfolding inject_into_next_assignment_Inr by blast
    have "?C groups (ts' ! 0) ts'"
    proof (intro conjI allI impI)
      show "length ts' = length groups + 1" using len xs by simp
      show "ts' ! 0 = ts' ! 0" by simp
      show "ts' ! length groups = out" using tn xs by simp
    next
      fix k assume "k < length groups"
      then have "Suc k < length (g # groups)" by simp
      with st have "\<exists>pre header cases post.
              search_next_case (fst ((g # groups) ! Suc k)) (ts ! Suc k) = Some (pre, header, cases, post)
              \<and> ts ! (Suc k + 1) = pre @ header @ ''\<newline>''
                    @ concat (map fault_case (snd ((g # groups) ! Suc k))) @ cases @ ''    esac;'' @ post"
        by blast
      with xs show "\<exists>pre header cases post.
              search_next_case (fst (groups ! k)) (ts' ! k) = Some (pre, header, cases, post)
              \<and> ts' ! (k + 1) = pre @ header @ ''\<newline>''
                    @ concat (map fault_case (snd (groups ! k))) @ cases @ ''    esac;'' @ post"
        by simp
    qed
    then have "inject_each groups (ts' ! 0) = Inr out"
      using Cons.IH [of "ts' ! 0"] by blast
    with step show "inject_each (g # groups) t = Inr out"
      unfolding g by simp
  qed
qed

text \<open>
  Claim C1.  The faults are grouped by variable, the variables in the order of their first
  occurrence and each group in the original fault order, and the groups are rewritten one
  after the other.  When the text holds a next-state conditional block for the variable,
  that is, when the search finds \<open>next(<variable>) := case\<close> followed later by \<open>esac;\<close>, the
  text splits into what precedes the block, the block header, the original branches up to
  the first \<open>esac;\<close>, and what follows; the rewritten text has the same parts with one branch
  \<open>fault_mode = stuck_<value> : <value>;\<close> per fault of the group, in the order of the group,
  between the header and the original branches, which follow unchanged.  The loop over
  the groups returns a text exactly when the search of each group succeeds in its turn,
  and that text is the last of the chain of texts rewritten in this way.
\<close>

theorem fault_branches_first:
  "faults_by_var all_faults =
      map (\<lambda>v. (v, filter (\<lambda>f. variable f = v) all_faults))
          (dedup_keep_first (map variable all_faults))
   \<and> inject_fault_conditions all_faults module_text0 = inject_each (faults_by_var all_faults) module_text0
   \<and> (search_next_case v module_text = Some (pre, header, cases, post) \<longrightarrow>
        module_text = pre @ header @ cases @ ''esac;'' @ post
        \<and> (\<exists>w1 w2. header = ''next('' @ v @ '')'' @ w1 @ '':='' @ w2 @ ''case''
              \<and> (\<forall>c \<in> set (w1 @ w2). isspace c))
        \<and> (\<forall>i<length cases. \<not> startswith (drop i (cases @ ''esac;'' @ post)) ''esac;'')
        \<and> inject_into_next_assignment module_text v fs =
            Inr (pre @ header @ ''\<newline>''
                 @ concat (map (\<lambda>f. ''        fault_mode = stuck_'' @ fault_value f @ '' : ''
                                     @ fault_value f @ '';\<newline>'') fs)
                 @ cases @ ''    esac;'' @ post)
        \<and> inject_each ((v, fs) # others) module_text =
            inject_each others (pre @ header @ ''\<newline>''
                 @ concat (map (\<lambda>f. ''        fault_mode = stuck_'' @ fault_value f @ '' : ''
                                     @ fault_value f @ '';\<newline>'') fs)
                 @ cases @ ''    esac;'' @ post))
   \<and> (inject_fault_conditions all_faults module_text0 = Inr out \<longleftrightarrow>
        (\<exists>ts. length ts = length (faults_by_var all_faults) + 1
           \<and> ts ! 0 = module_text0 \<and> ts ! length (faults_by_var all_faults) = out
           \<and> (\<forall>k<length (faults_by_var all_faults). \<exists>p h c q.
                 search_next_case (fst (faults_by_var all_faults ! k)) (ts ! k) = Some (p, h, c, q)
                 \<and> ts ! (k + 1) = p @ h @ ''\<newline>''
                      @ concat (map (\<lambda>f. ''        fault_mode = stuck_'' @ fault_value f @ '' : ''
                                          @ fault_value f @ '';\<newline>'')
                                    (snd (faults_by_var all_faults ! k)))
                      @ c @ ''    esac;'' @ q)))"
proof (intro conjI impI)
  show "faults_by_var all_faults =
      map (\<lambda>v. (v, filter (\<lambda>f. variable f = v) all_faults))
          (dedup_keep_first (map variable all_faults))"
    by (rule faults_by_var_eq)
  show "inject_fault_conditions all_faults module_text0 = inject_each (faults_by_var all_faults) module_text0"
    by (simp add: inject_fault_conditions_def)
next
  assume h: "search_next_case v module_text = Some (pre, header, cases, post)"
  from search_next_case_Some [OF h]
  have t: "module_text = pre @ header @ cases @ ''esac;'' @ post"
    and m: "match_next_case v (header @ cases @ ''esac;'' @ post) = Some (header, cases, post)"
    by simp_all
  show "module_text = pre @ header @ cases @ ''esac;'' @ post" by (rule t)
  from match_next_case_Some [OF m]
  show "\<exists>w1 w2. header = ''next('' @ v @ '')'' @ w1 @ '':='' @ w2 @ ''case''
              \<and> (\<forall>c \<in> set (w1 @ w2). isspace c)"
    and "\<forall>i<length cases. \<not> startswith (drop i (cases @ ''esac;'' @ post)) ''esac;''"
    by blast+
  have fc: "fault_case = (\<lambda>f. ''        fault_mode = stuck_'' @ fault_value f @ '' : ''
                                     @ fault_value f @ '';\<newline>'')"
    by (rule ext) (simp add: fault_case_def)
  from h show r: "inject_into_next_assignment module_text v fs =
            Inr (pre @ header @ ''\<newline>''
                 @ concat (map (\<lambda>f. ''        fault_mode = stuck_'' @ fault_value f @ '' : ''
                                     @ fault_value f @ '';\<newline>'') fs)
                 @ cases @ ''    esac;'' @ post)"
    by (simp add: inject_into_next_assignment_def Let_def fc)
  then show "inject_each ((v, fs) # others) module_text =
            inject_each others (pre @ header @ ''\<newline>''
                 @ concat (map (\<lambda>f. ''        fault_mode = stuck_'' @ fault_value f @ '' : ''
                                     @ fault_value f @ '';\<newline>'') fs)
                 @ cases @ ''    esac;'' @ post)"
    by simp
next
  have fc: "fault_case = (\<lambda>f. ''        fault_mode = stuck_'' @ fault_value f @ '' : ''
                                     @ fault_value f @ '';\<newline>'')"
    by (rule ext) (simp add: fault_case_def)
  show "(inject_fault_conditions all_faults module_text0 = Inr out \<longleftrightarrow>
        (\<exists>ts. length ts = length (faults_by_var all_faults) + 1
           \<and> ts ! 0 = module_text0 \<and> ts ! length (faults_by_var all_faults) = out
           \<and> (\<forall>k<length (faults_by_var all_faults). \<exists>p h c q.
                 search_next_case (fst (faults_by_var all_faults ! k)) (ts ! k) = Some (p, h, c, q)
                 \<and> ts ! (k + 1) = p @ h @ ''\<newline>''
                      @ concat (map (\<lambda>f. ''        fault_mode = stuck_'' @ fault_value f @ '' : ''
                                          @ fault_value f @ '';\<newline>'')
                                    (snd (faults_by_var all_faults ! k)))
                      @ c @ ''    esac;'' @ q)))"
    unfolding inject_fault_conditions_def
    by (rule inject_each_chain [unfolded fc])
qed

text \<open>Two faults on \<open>reading\<close>, one on \<open>level\<close>, and the block of \<open>reading\<close>; the loop
  with the two faults on \<open>reading\<close> only.\<close>

theorem fault_branches_first_witness:
  "inject_into_next_assignment
     ''ASSIGN\<newline>  next(reading) := case x : 1; TRUE : reading; esac;\<newline>'' ''reading''
     [\<lparr>fault_type = ''stuck-at'', variable = ''reading'', fault_value = ''0''\<rparr>,
      \<lparr>fault_type = ''stuck-at'', variable = ''reading'', fault_value = ''3''\<rparr>]
   = Inr ''ASSIGN\<newline>  next(reading) := case\<newline>        fault_mode = stuck_0 : 0;\<newline>        fault_mode = stuck_3 : 3;\<newline> x : 1; TRUE : reading;     esac;\<newline>''
   \<and> faults_by_var
     [\<lparr>fault_type = ''stuck-at'', variable = ''reading'', fault_value = ''0''\<rparr>,
      \<lparr>fault_type = ''stuck-at'', variable = ''level'', fault_value = ''1''\<rparr>,
      \<lparr>fault_type = ''stuck-at'', variable = ''reading'', fault_value = ''3''\<rparr>]
   = [(''reading'', [\<lparr>fault_type = ''stuck-at'', variable = ''reading'', fault_value = ''0''\<rparr>,
                     \<lparr>fault_type = ''stuck-at'', variable = ''reading'', fault_value = ''3''\<rparr>]),
      (''level'', [\<lparr>fault_type = ''stuck-at'', variable = ''level'', fault_value = ''1''\<rparr>])]
   \<and> inject_fault_conditions
     [\<lparr>fault_type = ''stuck-at'', variable = ''reading'', fault_value = ''0''\<rparr>,
      \<lparr>fault_type = ''stuck-at'', variable = ''reading'', fault_value = ''3''\<rparr>]
     ''ASSIGN\<newline>  next(reading) := case x : 1; TRUE : reading; esac;\<newline>''
   = Inr ''ASSIGN\<newline>  next(reading) := case\<newline>        fault_mode = stuck_0 : 0;\<newline>        fault_mode = stuck_3 : 3;\<newline> x : 1; TRUE : reading;     esac;\<newline>''"
proof -
  let ?t = "''ASSIGN\<newline>  next(reading) := case x : 1; TRUE : reading; esac;\<newline>''"
  let ?out = "''ASSIGN\<newline>  next(reading) := case\<newline>        fault_mode = stuck_0 : 0;\<newline>        fault_mode = stuck_3 : 3;\<newline> x : 1; TRUE : reading;     esac;\<newline>''"
  let ?f0 = "\<lparr>fault_type = ''stuck-at'', variable = ''reading'', fault_value = ''0''\<rparr>"
  let ?f1 = "\<lparr>fault_type = ''stuck-at'', variable = ''level'', fault_value = ''1''\<rparr>"
  let ?f3 = "\<lparr>fault_type = ''stuck-at'', variable = ''reading'', fault_value = ''3''\<rparr>"
  have h: "search_next_case ''reading'' ?t
      = Some (''ASSIGN\<newline>  '', ''next(reading) := case'', '' x : 1; TRUE : reading; '', ''\<newline>'')"
    by code_simp
  note inst = fault_branches_first [where all_faults = "[?f0, ?f1, ?f3]" and v = "''reading''"
      and module_text = ?t and pre = "''ASSIGN\<newline>  ''" and header = "''next(reading) := case''"
      and cases = "'' x : 1; TRUE : reading; ''" and post = "''\<newline>''" and fs = "[?f0, ?f3]"
      and others = "[]" and module_text0 = ?t and out = ?out]
  from inst [THEN conjunct2, THEN conjunct2, THEN conjunct1] h
  have "inject_into_next_assignment ?t ''reading'' [?f0, ?f3] =
            Inr (''ASSIGN\<newline>  '' @ ''next(reading) := case'' @ ''\<newline>''
                 @ concat (map (\<lambda>f. ''        fault_mode = stuck_'' @ fault_value f @ '' : ''
                                     @ fault_value f @ '';\<newline>'') [?f0, ?f3])
                 @ '' x : 1; TRUE : reading; '' @ ''    esac;'' @ ''\<newline>'')"
    by blast
  then have a: "inject_into_next_assignment ?t ''reading'' [?f0, ?f3] = Inr ?out"
    by simp
  from inst [THEN conjunct1] have "faults_by_var [?f0, ?f1, ?f3] =
      map (\<lambda>v. (v, filter (\<lambda>f. variable f = v) [?f0, ?f1, ?f3]))
          (dedup_keep_first (map variable [?f0, ?f1, ?f3]))" .
  then have b: "faults_by_var [?f0, ?f1, ?f3] = [(''reading'', [?f0, ?f3]), (''level'', [?f1])]"
    by (simp add: dedup_keep_first_def)
  have g: "faults_by_var [?f0, ?f3] = [(''reading'', [?f0, ?f3])]"
    by code_simp
  note loop = fault_branches_first [where all_faults = "[?f0, ?f3]" and module_text0 = ?t
      and out = ?out, THEN conjunct2, THEN conjunct2, THEN conjunct2]
  have "\<exists>ts. length ts = length (faults_by_var [?f0, ?f3]) + 1
           \<and> ts ! 0 = ?t \<and> ts ! length (faults_by_var [?f0, ?f3]) = ?out
           \<and> (\<forall>k<length (faults_by_var [?f0, ?f3]). \<exists>p h c q.
                 search_next_case (fst (faults_by_var [?f0, ?f3] ! k)) (ts ! k) = Some (p, h, c, q)
                 \<and> ts ! (k + 1) = p @ h @ ''\<newline>''
                      @ concat (map (\<lambda>f. ''        fault_mode = stuck_'' @ fault_value f @ '' : ''
                                          @ fault_value f @ '';\<newline>'')
                                    (snd (faults_by_var [?f0, ?f3] ! k)))
                      @ c @ ''    esac;'' @ q)"
    unfolding g
    by (rule exI [of _ "[?t, ?out]"]) (simp del: search_next_case.simps add: h)
  with loop have c: "inject_fault_conditions [?f0, ?f3] ?t = Inr ?out"
    by blast
  from a b c show ?thesis by simp
qed

section \<open>Failures of the module rewrite\<close>

lemma inject_each_append:
  "inject_each (before @ (v, vfs) # todo) t0 =
     (case inject_each before t0 of
        Inl e \<Rightarrow> Inl e
      | Inr t \<Rightarrow> (case inject_into_next_assignment t v vfs of
                    Inl e \<Rightarrow> Inl e
                  | Inr t' \<Rightarrow> inject_each todo t'))"
  by (induction before arbitrary: t0) (auto split: sum.splits)

lemma fault_mode_decl_not_section:
  "\<not> startswith (strip (fault_mode_decl fs)) ''ASSIGN''"
proof -
  have "dropWhile isspace (fault_mode_decl fs) = ''fault_mode : {'' @ get_fault_mode_enum fs @ ''};\<newline>''"
    by (simp add: fault_mode_decl_def isspace_def)
  then have "\<not> startswith (dropWhile isspace (fault_mode_decl fs)) ''ASSIGN''"
    by simp
  then show ?thesis
    using startswith_strip_lstrip [of "''ASSIGN''" "fault_mode_decl fs"]
    by (simp add: isspace_def)
qed

lemma no_assign_after_decl:
  assumes "\<forall>l \<in> set lines. \<not> startswith (strip l) ''ASSIGN''"
  shows "find_section_start (list_insert i (fault_mode_decl fs) lines) ''ASSIGN'' = None"
proof -
  have "set (list_insert i (fault_mode_decl fs) lines) \<subseteq> insert (fault_mode_decl fs) (set lines)"
    unfolding list_insert_def
    using set_take_subset [of i lines] set_drop_subset [of i lines] by auto
  with assms fault_mode_decl_not_section [of fs]
  have "\<forall>l \<in> set (list_insert i (fault_mode_decl fs) lines). \<not> startswith (strip l) ''ASSIGN''"
    by blast
  then show ?thesis
    by (simp add: find_section_start_def first_line_with_None)
qed

text \<open>
  Claim C6, as the code has it.  The module rewrite ends in an error, and yields no text,
  in each of these cases: no line of the module text starts (after stripping) with \<open>VAR\<close>;
  a VAR line exists but no line starts with \<open>ASSIGN\<close>; the declarations went in, the groups
  before the one of variable \<open>v\<close> were rewritten, and the text then at hand holds no match of
  \<open>next(v) := case ... esac;\<close>.  The search is made on that text, not on the module text as
  it was given.  The last error is the one of the rewriter of a single variable whenever
  its search fails.
\<close>

theorem inject_into_module_fails:
  "((\<forall>l \<in> set (splitlines module_text). \<not> startswith (strip l) ''VAR'')
      \<longrightarrow> inject_into_module fs module_text = Inl NoVarSection)
   \<and> ((\<exists>l \<in> set (splitlines module_text). startswith (strip l) ''VAR'')
        \<and> (\<forall>l \<in> set (splitlines module_text). \<not> startswith (strip l) ''ASSIGN'')
      \<longrightarrow> inject_into_module fs module_text = Inl NoAssignSection)
   \<and> (search_next_case v t = None
      \<longrightarrow> inject_into_next_assignment t v vfs = Inl (AssignmentNotFound v))
   \<and> (inject_declarations fs module_text = Inr lines
        \<and> faults_by_var fs = before @ (v, vfs) # todo
        \<and> inject_each before (concat lines) = Inr t
        \<and> search_next_case v t = None
      \<longrightarrow> inject_into_module fs module_text = Inl (AssignmentNotFound v))"
proof (intro conjI impI)
  assume "\<forall>l \<in> set (splitlines module_text). \<not> startswith (strip l) ''VAR''"
  then have "find_section_start (splitlines module_text) ''VAR'' = None"
    by (simp add: find_section_start_def first_line_with_None)
  then show "inject_into_module fs module_text = Inl NoVarSection"
    by (simp add: inject_into_module_def inject_declarations_def)
next
  assume h: "(\<exists>l \<in> set (splitlines module_text). startswith (strip l) ''VAR'')
        \<and> (\<forall>l \<in> set (splitlines module_text). \<not> startswith (strip l) ''ASSIGN'')"
  then have "find_section_start (splitlines module_text) ''VAR'' \<noteq> None"
    by (simp add: find_section_start_def first_line_with_None)
  then obtain var_idx where "find_section_start (splitlines module_text) ''VAR'' = Some var_idx"
    by auto
  moreover from h have "find_section_start
      (list_insert (var_idx + 1) (fault_mode_decl fs) (splitlines module_text)) ''ASSIGN'' = None"
    by (intro no_assign_after_decl) simp
  ultimately show "inject_into_module fs module_text = Inl NoAssignSection"
    by (simp add: inject_into_module_def inject_declarations_def Let_def)
next
  assume "search_next_case v t = None"
  then show "inject_into_next_assignment t v vfs = Inl (AssignmentNotFound v)"
    by (simp add: inject_into_next_assignment_def)
next
  assume h: "inject_declarations fs module_text = Inr lines
        \<and> faults_by_var fs = before @ (v, vfs) # todo
        \<and> inject_each before (concat lines) = Inr t
        \<and> search_next_case v t = None"
  then have "inject_into_next_assignment t v vfs = Inl (AssignmentNotFound v)"
    by (simp add: inject_into_next_assignment_def)
  with h show "inject_into_module fs module_text = Inl (AssignmentNotFound v)"
    by (simp add: inject_into_module_def inject_fault_conditions_def inject_each_append)
qed

text \<open>A module without VAR, a module without ASSIGN, and a module whose second affected
  variable \<open>level\<close> has no next-state block.\<close>

theorem inject_into_module_fails_witness:
  "inject_into_module [\<lparr>fault_type = ''stuck-at'', variable = ''reading'', fault_value = ''0''\<rparr>]
      ''MODULE Sensor\<newline>ASSIGN\<newline>  next(reading) := case TRUE : reading; esac;\<newline>''
     = Inl NoVarSection
   \<and> inject_into_module [\<lparr>fault_type = ''stuck-at'', variable = ''reading'', fault_value = ''0''\<rparr>]
      ''MODULE Sensor\<newline>VAR\<newline>  reading : 0..3;\<newline>''
     = Inl NoAssignSection
   \<and> inject_into_module [\<lparr>fault_type = ''stuck-at'', variable = ''reading'', fault_value = ''0''\<rparr>,
                          \<lparr>fault_type = ''stuck-at'', variable = ''level'', fault_value = ''1''\<rparr>]
      ''VAR\<newline>ASSIGN\<newline>  next(reading) := case TRUE : reading; esac;\<newline>''
     = Inl (AssignmentNotFound ''level'')"
proof -
  let ?f0 = "\<lparr>fault_type = ''stuck-at'', variable = ''reading'', fault_value = ''0''\<rparr>"
  let ?f1 = "\<lparr>fault_type = ''stuck-at'', variable = ''level'', fault_value = ''1''\<rparr>"
  let ?m1 = "''MODULE Sensor\<newline>ASSIGN\<newline>  next(reading) := case TRUE : reading; esac;\<newline>''"
  let ?m2 = "''MODULE Sensor\<newline>VAR\<newline>  reading : 0..3;\<newline>''"
  let ?m3 = "''VAR\<newline>ASSIGN\<newline>  next(reading) := case TRUE : reading; esac;\<newline>''"
  let ?lines = "[''VAR\<newline>'', ''    fault_mode : {none, stuck_0, stuck_1};\<newline>'', ''ASSIGN\<newline>'',
      ''    init(fault_mode) := none;\<newline>\<newline>'',
      ''    next(fault_mode) :=\<newline>        case\<newline>            fault_mode = none :\<newline>                {none, stuck_0, stuck_1};\<newline>            TRUE :\<newline>                fault_mode;\<newline>        esac;\<newline>'',
      ''  next(reading) := case TRUE : reading; esac;\<newline>'']"
  let ?t = "''VAR\<newline>    fault_mode : {none, stuck_0, stuck_1};\<newline>ASSIGN\<newline>    init(fault_mode) := none;\<newline>\<newline>    next(fault_mode) :=\<newline>        case\<newline>            fault_mode = none :\<newline>                {none, stuck_0, stuck_1};\<newline>            TRUE :\<newline>                fault_mode;\<newline>        esac;\<newline>  next(reading) := case\<newline>        fault_mode = stuck_0 : 0;\<newline> TRUE : reading;     esac;\<newline>''"
  have a: "\<forall>l \<in> set (splitlines ?m1). \<not> startswith (strip l) ''VAR''"
    by (simp add: strip_def isspace_def islinebreak_def)
  have b: "(\<exists>l \<in> set (splitlines ?m2). startswith (strip l) ''VAR'')
        \<and> (\<forall>l \<in> set (splitlines ?m2). \<not> startswith (strip l) ''ASSIGN'')"
    by (simp add: strip_def isspace_def islinebreak_def)
  have c1: "inject_declarations [?f0, ?f1] ?m3 = Inr ?lines"
    by code_simp
  have c2: "faults_by_var [?f0, ?f1] = [(''reading'', [?f0])] @ (''level'', [?f1]) # []"
    by code_simp
  have c3: "inject_each [(''reading'', [?f0])] (concat ?lines) = Inr ?t"
    by code_simp
  have c4: "search_next_case ''level'' ?t = None"
    by code_simp
  from a have r1: "inject_into_module [?f0] ?m1 = Inl NoVarSection"
    using inject_into_module_fails [of ?m1 "[?f0]"] by blast
  from b have r2: "inject_into_module [?f0] ?m2 = Inl NoAssignSection"
    using inject_into_module_fails [of ?m2 "[?f0]"] by blast
  from c1 c2 c3 c4 have "inject_into_module [?f0, ?f1] ?m3 = Inl (AssignmentNotFound ''level'')"
    using inject_into_module_fails [where module_text = ?m3 and fs = "[?f0, ?f1]"
        and lines = ?lines and before = "[(''reading'', [?f0])]" and v = "''level''"
        and vfs = "[?f1]" and todo = "[]" and t = ?t]
    by blast
  with r1 r2 show ?thesis by simp
qed

text \<open>A module without any next-state block and a fault on the variable \<open>fault_mode\<close>:
  the module text holds no block for that variable, the inserted next-state assignment of
  the fault mode is one, and the rewrite succeeds.\<close>

theorem inject_into_module_inserted_block_counterexample:
  "search_next_case ''fault_mode''
      ''MODULE m\<newline>VAR\<newline>  x : boolean;\<newline>ASSIGN\<newline>  init(x) := TRUE;\<newline>'' = None
   \<and> inject_into_module
      [\<lparr>fault_type = ''stuck-at'', variable = ''fault_mode'', fault_value = ''0''\<rparr>]
      ''MODULE m\<newline>VAR\<newline>  x : boolean;\<newline>ASSIGN\<newline>  init(x) := TRUE;\<newline>''
     = Inr ''MODULE m\<newline>VAR\<newline>    fault_mode : {none, stuck_0};\<newline>  x : boolean;\<newline>ASSIGN\<newline>    init(fault_mode) := none;\<newline>\<newline>  init(x) := TRUE;\<newline>    next(fault_mode) :=\<newline>        case\<newline>        fault_mode = stuck_0 : 0;\<newline>\<newline>            fault_mode = none :\<newline>                {none, stuck_0};\<newline>            TRUE :\<newline>                fault_mode;\<newline>            esac;\<newline>''"
  by code_simp

section \<open>Declaration Injector\<close>

lemma first_line_with_append:
  "first_line_with key (xs @ ys) =
     (case first_line_with key xs of
        Some k \<Rightarrow> Some k
      | None \<Rightarrow> map_option (\<lambda>k. length xs + k) (first_line_with key ys))"
proof (induction xs)
  case Nil
  show ?case by (cases "first_line_with key ys") simp_all
next
  case (Cons x xs)
  then show ?case
    by (cases "first_line_with key ys") (auto split: option.splits)
qed

lemma first_line_with_less: "first_line_with key xs = Some k \<Longrightarrow> k < length xs"
  by (simp add: first_line_with_Some)

lemma first_line_with_list_insert:
  assumes "first_line_with key lines = Some k" and "\<not> startswith (strip x) key"
  shows "first_line_with key (list_insert i x lines) = Some (if i \<le> k then k + 1 else k)"
proof -
  have split: "(case first_line_with key (take i lines) of
        Some k \<Rightarrow> Some k
      | None \<Rightarrow> map_option (\<lambda>k. length (take i lines) + k) (first_line_with key (drop i lines)))
     = Some k"
    using assms(1) first_line_with_append [of key "take i lines" "drop i lines"] by simp
  show ?thesis
  proof (cases "first_line_with key (take i lines)")
    case (Some j)
    with split have "j = k" by simp
    moreover from Some have "j < length (take i lines)" by (rule first_line_with_less)
    ultimately have "\<not> i \<le> k" by simp
    with Some \<open>j = k\<close> show ?thesis
      by (simp add: list_insert_def first_line_with_append)
  next
    case None
    with split obtain k' where k': "first_line_with key (drop i lines) = Some k'"
      "k = length (take i lines) + k'"
      by auto
    have "i \<le> length lines"
    proof (rule ccontr)
      assume "\<not> i \<le> length lines"
      then have "take i lines = lines" by simp
      with None assms(1) show False by simp
    qed
    with k' have "k = i + k'" by simp
    with None k' assms(2) \<open>i \<le> length lines\<close> show ?thesis
      by (simp add: list_insert_def first_line_with_append)
  qed
qed

lemma nth_list_insert:
  "i \<le> length xs \<Longrightarrow>
     list_insert i x xs ! j = (if j < i then xs ! j else if j = i then x else xs ! (j - 1))"
proof -
  assume i: "i \<le> length xs"
  consider "j < i" | "j = i" | "i < j" by arith
  then show ?thesis
  proof cases
    case 1
    with i show ?thesis by (simp add: list_insert_def nth_append)
  next
    case 2
    with i show ?thesis by (simp add: list_insert_def nth_append)
  next
    case 3
    then obtain d where d: "j = i + Suc d" by (metis less_imp_Suc_add add_Suc_right)
    with i show ?thesis by (simp add: list_insert_def nth_append)
  qed
qed

lemma length_list_insert: "length (list_insert i x xs) = length xs + 1"
  by (simp add: list_insert_def)

lemma count_list_list_insert:
  "count_list (list_insert i x xs) y = count_list xs y + (if x = y then 1 else 0)"
proof -
  have "count_list (take i xs @ drop i xs) y = count_list (take i xs) y + count_list (drop i xs) y"
    by (rule count_list_append)
  then have "count_list xs y = count_list (take i xs) y + count_list (drop i xs) y"
    by simp
  then show ?thesis
    by (simp add: list_insert_def)
qed

lemma insert_position_loop_bounds:
  "last_init < i \<Longrightarrow>
     last_init + 1 \<le> insert_position_loop ls i last_init
     \<and> insert_position_loop ls i last_init \<le> i + length ls"
proof (induction ls arbitrary: i last_init)
  case Nil
  then show ?case by simp
next
  case (Cons l ls)
  have a: "i + 1 \<le> insert_position_loop ls (i + 1) i
     \<and> insert_position_loop ls (i + 1) i \<le> (i + 1) + length ls"
    by (rule Cons.IH) simp
  have b: "last_init + 1 \<le> insert_position_loop ls (i + 1) last_init
     \<and> insert_position_loop ls (i + 1) last_init \<le> (i + 1) + length ls"
    by (rule Cons.IH) (use Cons.prems in simp)
  from a b Cons.prems show ?case by auto
qed

lemma var_line_not_assign:
  "startswith (strip l) ''VAR'' \<Longrightarrow> \<not> startswith (strip l) ''ASSIGN''"
  by (auto simp: startswith_iff)

text \<open>
  Claim C2, as the code has it.  For a module text with a VAR line (the first at index \<open>v\<close>)
  and an ASSIGN line (the first at index \<open>a0\<close>), and any fault list, the Declaration Injector
  succeeds and its output is the line list of the module with three entries inserted, one
  each: the fault-mode declaration at index \<open>v + 1\<close>, immediately after the VAR header; the
  initial assignment \<open>init(fault_mode) := none;\<close> immediately after the ASSIGN header; and the
  two-branch next-state assignment of the fault mode at a position after both.  The domain
  of the declaration, and the choice set of the first branch, is the brace-delimited list
  \<open>none, stuck_<v1>, stuck_<v2>, ...\<close> of the fault values with duplicates removed, first
  occurrences kept.  In the output the initial assignment directly follows the ASSIGN
  header, and when the VAR header precedes the ASSIGN header the declaration directly
  follows the VAR header.  Nothing is looked up before inserting: every line occurs in the
  output as often as in the input, plus one for each inserted entry it equals.
\<close>

theorem declarations_inserted:
  assumes var: "first_line_with ''VAR'' (splitlines module_text) = Some v"
    and assign: "first_line_with ''ASSIGN'' (splitlines module_text) = Some a0"
  shows "\<exists>a p out.
      inject_declarations fs module_text = Inr out
      \<and> out = list_insert p (generate_next_fault_mode fs)
                 (list_insert (a + 1) init_fault
                    (list_insert (v + 1) (fault_mode_decl fs) (splitlines module_text)))
      \<and> a = (if v < a0 then a0 + 1 else a0)
      \<and> a + 2 \<le> p \<and> p \<le> length (splitlines module_text) + 2
      \<and> out ! a = splitlines module_text ! a0 \<and> out ! (a + 1) = init_fault
      \<and> (v < a0 \<longrightarrow> out ! v = splitlines module_text ! v \<and> out ! (v + 1) = fault_mode_decl fs)
      \<and> (\<forall>x. count_list out x = count_list (splitlines module_text) x
              + (if x = fault_mode_decl fs then 1 else 0)
              + (if x = init_fault then 1 else 0)
              + (if x = generate_next_fault_mode fs then 1 else 0))
      \<and> fault_mode_decl fs = ''    fault_mode : {''
            @ join '', '' (''none'' # map (\<lambda>val. ''stuck_'' @ val)
                                        (dedup_keep_first (map fault_value fs)))
            @ ''};\<newline>''
      \<and> init_fault = ''    init(fault_mode) := none;\<newline>\<newline>''
      \<and> generate_next_fault_mode fs =
            ''    next(fault_mode) :=\<newline>        case\<newline>            fault_mode = none :\<newline>                {''
            @ join '', '' (''none'' # map (\<lambda>val. ''stuck_'' @ val)
                                        (dedup_keep_first (map fault_value fs)))
            @ ''};\<newline>            TRUE :\<newline>                fault_mode;\<newline>        esac;\<newline>''"
proof -
  let ?lines = "splitlines module_text"
  let ?decl = "fault_mode_decl fs"
  let ?next = "generate_next_fault_mode fs"
  let ?lines1 = "list_insert (v + 1) ?decl ?lines"
  define a where "a = (if v < a0 then a0 + 1 else a0)"
  let ?lines2 = "list_insert (a + 1) init_fault ?lines1"
  define p where "p = find_insert_position_for_next_fault_mode ?lines2 a"
  let ?out = "list_insert p ?next ?lines2"
  from var have v: "v < length ?lines" "startswith (strip (?lines ! v)) ''VAR''"
    by (simp_all add: first_line_with_Some)
  from assign have a0: "a0 < length ?lines" "startswith (strip (?lines ! a0)) ''ASSIGN''"
    by (simp_all add: first_line_with_Some)
  from v a0 have ne: "v \<noteq> a0" using var_line_not_assign by blast
  have assign1: "first_line_with ''ASSIGN'' ?lines1 = Some a"
    using first_line_with_list_insert [OF assign fault_mode_decl_not_section, of "v + 1" fs] ne
    by (auto simp: a_def)
  have res: "inject_declarations fs module_text = Inr ?out"
    using var assign1
    by (simp add: inject_declarations_def Let_def find_section_start_def p_def)
  have len1: "length ?lines1 = length ?lines + 1" by (rule length_list_insert)
  have len2: "length ?lines2 = length ?lines + 2" by (simp add: length_list_insert)
  have a_le: "a + 1 \<le> length ?lines1" using a0 len1 by (simp add: a_def)
  have v_le: "v + 1 \<le> length ?lines" using v by simp
  have at_a1: "?lines2 ! (a + 1) = init_fault"
    using a_le by (simp add: nth_list_insert)
  have "drop (a + 1) ?lines2 = init_fault # drop (a + 1) ?lines1"
    using a_le by (simp add: list_insert_def)
  then have p_eq: "p = insert_position_loop (drop (a + 1) ?lines1) (a + 2) (a + 1)"
    by (simp add: p_def find_insert_position_for_next_fault_mode_def init_fault_def)
  have "a + 1 + 1 \<le> p \<and> p \<le> (a + 2) + length (drop (a + 1) ?lines1)"
    unfolding p_eq by (rule insert_position_loop_bounds) simp
  with a_le len1 have p: "a + 2 \<le> p" "p \<le> length ?lines + 2" by auto
  with len2 have p_le: "p \<le> length ?lines2" by simp
  have out_a: "?out ! a = ?lines ! a0"
  proof -
    have "?out ! a = ?lines2 ! a" using p p_le by (simp add: nth_list_insert)
    also have "\<dots> = ?lines1 ! a" using a_le by (simp add: nth_list_insert)
    also have "\<dots> = ?lines ! a0" using v_le ne by (auto simp: nth_list_insert a_def)
    finally show ?thesis .
  qed
  have out_a1: "?out ! (a + 1) = init_fault"
    using p p_le at_a1 by (simp add: nth_list_insert)
  have out_v: "v < a0 \<longrightarrow> ?out ! v = ?lines ! v \<and> ?out ! (v + 1) = ?decl"
  proof
    assume "v < a0"
    then have va: "v + 1 < a + 1" by (simp add: a_def)
    with p have vp: "v + 1 < p" by simp
    have "?out ! v = ?lines2 ! v" using vp p_le by (simp add: nth_list_insert)
    also have "\<dots> = ?lines1 ! v" using va a_le by (simp add: nth_list_insert)
    also have "\<dots> = ?lines ! v" using v_le by (simp add: nth_list_insert)
    finally have 1: "?out ! v = ?lines ! v" .
    have "?out ! (v + 1) = ?lines2 ! (v + 1)" using vp p_le by (simp add: nth_list_insert)
    also have "\<dots> = ?lines1 ! (v + 1)" using va a_le by (simp add: nth_list_insert)
    also have "\<dots> = ?decl" using v_le by (simp add: nth_list_insert)
    finally show "?out ! v = ?lines ! v \<and> ?out ! (v + 1) = ?decl" using 1 by simp
  qed
  have cnt: "\<forall>x. count_list ?out x = count_list ?lines x
              + (if x = ?decl then 1 else 0)
              + (if x = init_fault then 1 else 0)
              + (if x = ?next then 1 else 0)"
    by (auto simp: count_list_list_insert)
  have decl: "?decl = ''    fault_mode : {''
            @ join '', '' (''none'' # map (\<lambda>val. ''stuck_'' @ val)
                                        (dedup_keep_first (map fault_value fs)))
            @ ''};\<newline>''"
    by (simp add: fault_mode_decl_def get_fault_mode_enum_eq)
  have nxt: "?next =
            ''    next(fault_mode) :=\<newline>        case\<newline>            fault_mode = none :\<newline>                {''
            @ join '', '' (''none'' # map (\<lambda>val. ''stuck_'' @ val)
                                        (dedup_keep_first (map fault_value fs)))
            @ ''};\<newline>            TRUE :\<newline>                fault_mode;\<newline>        esac;\<newline>''"
    by (simp add: generate_next_fault_mode_def get_fault_mode_enum_eq)
  have ini: "init_fault = ''    init(fault_mode) := none;\<newline>\<newline>''"
    by (simp add: init_fault_def)
  have aa: "a = (if v < a0 then a0 + 1 else a0)" by (rule a_def)
  show ?thesis
    apply (rule exI [of _ a])
    apply (rule exI [of _ p])
    apply (rule exI [of _ ?out])
    apply (intro conjI)
    apply (rule res)
    apply (rule refl)
    apply (rule aa)
    apply (rule p(1))
    apply (rule p(2))
    apply (rule out_a)
    apply (rule out_a1)
    apply (rule out_v)
    apply (rule cnt)
    apply (rule decl)
    apply (rule ini)
    apply (rule nxt)
    done
qed

text \<open>The module \<open>Sensor\<close> with three faults, two of them with the value \<open>0\<close>.\<close>

theorem declarations_inserted_witness:
  "first_line_with ''VAR''
      (splitlines ''MODULE Sensor\<newline>VAR\<newline>  reading : 0..3;\<newline>ASSIGN\<newline>  next(reading) := case TRUE : reading; esac;\<newline>'')
     = Some 1
   \<and> first_line_with ''ASSIGN''
      (splitlines ''MODULE Sensor\<newline>VAR\<newline>  reading : 0..3;\<newline>ASSIGN\<newline>  next(reading) := case TRUE : reading; esac;\<newline>'')
     = Some 3
   \<and> (\<exists>out. inject_declarations
          [\<lparr>fault_type = ''stuck-at'', variable = ''reading'', fault_value = ''0''\<rparr>,
           \<lparr>fault_type = ''stuck-at'', variable = ''reading'', fault_value = ''1''\<rparr>,
           \<lparr>fault_type = ''stuck-at'', variable = ''level'', fault_value = ''0''\<rparr>]
          ''MODULE Sensor\<newline>VAR\<newline>  reading : 0..3;\<newline>ASSIGN\<newline>  next(reading) := case TRUE : reading; esac;\<newline>''
        = Inr out
      \<and> out ! 1 = ''VAR\<newline>''
      \<and> out ! 2 = ''    fault_mode : {none, stuck_0, stuck_1};\<newline>''
      \<and> out ! 4 = ''ASSIGN\<newline>''
      \<and> out ! 5 = ''    init(fault_mode) := none;\<newline>\<newline>'')"
proof -
  let ?m = "''MODULE Sensor\<newline>VAR\<newline>  reading : 0..3;\<newline>ASSIGN\<newline>  next(reading) := case TRUE : reading; esac;\<newline>''"
  let ?fs = "[\<lparr>fault_type = ''stuck-at'', variable = ''reading'', fault_value = ''0''\<rparr>,
           \<lparr>fault_type = ''stuck-at'', variable = ''reading'', fault_value = ''1''\<rparr>,
           \<lparr>fault_type = ''stuck-at'', variable = ''level'', fault_value = ''0''\<rparr>]"
  have ls: "splitlines ?m = [''MODULE Sensor\<newline>'', ''VAR\<newline>'', ''  reading : 0..3;\<newline>'', ''ASSIGN\<newline>'',
      ''  next(reading) := case TRUE : reading; esac;\<newline>'']"
    by code_simp
  have h1: "first_line_with ''VAR'' (splitlines ?m) = Some 1"
    by code_simp
  have h2: "first_line_with ''ASSIGN'' (splitlines ?m) = Some 3"
    by code_simp
  from declarations_inserted [OF h1 h2, of ?fs]
  obtain a p out where r: "inject_declarations ?fs ?m = Inr out"
    and a: "a = (if (1::nat) < 3 then 3 + 1 else 3)"
    and o1: "out ! a = splitlines ?m ! 3" "out ! (a + 1) = init_fault"
    and o2: "(1::nat) < 3 \<longrightarrow> out ! 1 = splitlines ?m ! 1 \<and> out ! (1 + 1) = fault_mode_decl ?fs"
    and d: "fault_mode_decl ?fs = ''    fault_mode : {''
            @ join '', '' (''none'' # map (\<lambda>val. ''stuck_'' @ val)
                                        (dedup_keep_first (map fault_value ?fs)))
            @ ''};\<newline>''"
    and i: "init_fault = ''    init(fault_mode) := none;\<newline>\<newline>''"
    by blast
  from a have a4: "a = 4" by simp
  from d have d': "fault_mode_decl ?fs = ''    fault_mode : {none, stuck_0, stuck_1};\<newline>''"
    by (simp add: dedup_keep_first_def)
  from o1 a4 i have "out ! 4 = ''ASSIGN\<newline>''" "out ! 5 = ''    init(fault_mode) := none;\<newline>\<newline>''"
    unfolding ls by simp_all
  moreover from o2 d' have "out ! 1 = ''VAR\<newline>''"
    "out ! 2 = ''    fault_mode : {none, stuck_0, stuck_1};\<newline>''"
    unfolding ls by (simp_all add: numeral_2_eq_2)
  ultimately show ?thesis using h1 h2 r by blast
qed

text \<open>A module that already holds a fault-mode declaration and its initial assignment, as
  after an earlier injection: the output holds two declarations and two initial
  assignments.\<close>

theorem declarations_inserted_twice_counterexample:
  "inject_declarations [\<lparr>fault_type = ''stuck-at'', variable = ''reading'', fault_value = ''0''\<rparr>]
     ''MODULE Sensor\<newline>VAR\<newline>    fault_mode : {none, stuck_0};\<newline>  reading : 0..3;\<newline>ASSIGN\<newline>    init(fault_mode) := none;\<newline>  next(reading) := case TRUE : reading; esac;\<newline>''
   = Inr [''MODULE Sensor\<newline>'', ''VAR\<newline>'', ''    fault_mode : {none, stuck_0};\<newline>'',
      ''    fault_mode : {none, stuck_0};\<newline>'', ''  reading : 0..3;\<newline>'',
      ''ASSIGN\<newline>'', ''    init(fault_mode) := none;\<newline>\<newline>'',
      ''    init(fault_mode) := none;\<newline>'',
      ''    next(fault_mode) :=\<newline>        case\<newline>            fault_mode = none :\<newline>                {none, stuck_0};\<newline>            TRUE :\<newline>                fault_mode;\<newline>        esac;\<newline>'',
      ''  next(reading) := case TRUE : reading; esac;\<newline>'']"
  by code_simp

section \<open>Where the next-state assignment of the fault mode goes\<close>

text \<open>
  Claim C3, as the code has it.  In the module rewrite the next-state assignment of the
  fault mode is inserted into the line list that already holds the declaration and, right
  behind the first ASSIGN header (index \<open>a\<close>), the initial assignment of the fault mode; the
  insert position is the value of the position helper on that list.  Let \<open>e\<close> be the index at
  which the ASSIGN section ends.  If the section has a next-state line, the assignment goes
  immediately before the first one, whatever follows that line.  If the section has no
  next-state line and no line from \<open>e\<close> on contains \<open>init(\<close> or \<open>next(\<close>, it goes immediately
  after the last initial-value line of the section; when nothing after the inserted initial
  assignment contains \<open>init(\<close> or \<open>next(\<close>, that is directly after the inserted initial
  assignment.  On a list where no line after the header contains \<open>init(\<close> or \<open>next(\<close> the
  helper returns the index right after the header.
\<close>

theorem next_fault_mode_position:
  assumes var: "first_line_with ''VAR'' (splitlines module_text) = Some v"
    and assign: "first_line_with ''ASSIGN'' (splitlines module_text) = Some a0"
  shows "(\<exists>a lines2 p.
      a = (if v < a0 then a0 + 1 else a0)
      \<and> lines2 = list_insert (a + 1) init_fault
                    (list_insert (v + 1) (fault_mode_decl fs) (splitlines module_text))
      \<and> lines2 ! a = splitlines module_text ! a0 \<and> lines2 ! (a + 1) = init_fault
      \<and> p = find_insert_position_for_next_fault_mode lines2 a
      \<and> a + 2 \<le> p \<and> p \<le> length lines2
      \<and> inject_declarations fs module_text
            = Inr (list_insert p (generate_next_fault_mode fs) lines2)
      \<and> (a < n \<and> n < e \<and> e \<le> length lines2 \<and> is_next_line (lines2 ! n)
            \<and> (\<forall>j. a < j \<and> j < n \<longrightarrow> \<not> is_next_line (lines2 ! j))
          \<longrightarrow> p = n)
      \<and> (a < m \<and> m < e \<and> e \<le> length lines2 \<and> is_init_line (lines2 ! m)
            \<and> (\<forall>j. a < j \<and> j < e \<longrightarrow> \<not> is_next_line (lines2 ! j))
            \<and> (\<forall>j. m < j \<and> j < e \<longrightarrow> \<not> is_init_line (lines2 ! j))
            \<and> (\<forall>j. e \<le> j \<and> j < length lines2
                  \<longrightarrow> \<not> is_next_line (lines2 ! j) \<and> \<not> is_init_line (lines2 ! j))
          \<longrightarrow> p = m + 1)
      \<and> ((\<forall>j. a + 1 < j \<and> j < length lines2
                  \<longrightarrow> \<not> is_next_line (lines2 ! j) \<and> \<not> is_init_line (lines2 ! j))
          \<longrightarrow> p = a + 2))
   \<and> ((\<forall>j. i < j \<and> j < length ls \<longrightarrow> \<not> is_next_line (ls ! j) \<and> \<not> is_init_line (ls ! j))
        \<longrightarrow> find_insert_position_for_next_fault_mode ls i = i + 1)"
proof
  let ?lines = "splitlines module_text"
  let ?decl = "fault_mode_decl fs"
  let ?next = "generate_next_fault_mode fs"
  let ?lines1 = "list_insert (v + 1) ?decl ?lines"
  define a where "a = (if v < a0 then a0 + 1 else a0)"
  define lines2 where "lines2 = list_insert (a + 1) init_fault ?lines1"
  define p where "p = find_insert_position_for_next_fault_mode lines2 a"
  from var have v: "v < length ?lines" "startswith (strip (?lines ! v)) ''VAR''"
    by (simp_all add: first_line_with_Some)
  from assign have a0: "a0 < length ?lines" "startswith (strip (?lines ! a0)) ''ASSIGN''"
    by (simp_all add: first_line_with_Some)
  from v a0 have ne: "v \<noteq> a0" using var_line_not_assign by blast
  have assign1: "first_line_with ''ASSIGN'' ?lines1 = Some a"
    using first_line_with_list_insert [OF assign fault_mode_decl_not_section, of "v + 1" fs] ne
    by (auto simp: a_def)
  have res: "inject_declarations fs module_text = Inr (list_insert p ?next lines2)"
    using var assign1
    by (simp add: inject_declarations_def Let_def find_section_start_def p_def lines2_def)
  have len1: "length ?lines1 = length ?lines + 1" by (rule length_list_insert)
  have len2: "length lines2 = length ?lines + 2" by (simp add: lines2_def length_list_insert)
  have a_le: "a + 1 \<le> length ?lines1" using a0 len1 by (simp add: a_def)
  have v_le: "v + 1 \<le> length ?lines" using v by simp
  have at_a: "lines2 ! a = ?lines ! a0"
  proof -
    have "lines2 ! a = ?lines1 ! a" using a_le by (simp add: lines2_def nth_list_insert)
    also have "\<dots> = ?lines ! a0" using v_le ne by (auto simp: nth_list_insert a_def)
    finally show ?thesis .
  qed
  have at_a1: "lines2 ! (a + 1) = init_fault"
    using a_le by (simp add: lines2_def nth_list_insert)
  have "drop (a + 1) lines2 = init_fault # drop (a + 1) ?lines1"
    using a_le by (simp add: lines2_def list_insert_def)
  then have p_eq: "p = insert_position_loop (drop (a + 1) ?lines1) (a + 2) (a + 1)"
    by (simp add: p_def find_insert_position_for_next_fault_mode_def init_fault_def)
  have "a + 1 + 1 \<le> p \<and> p \<le> (a + 2) + length (drop (a + 1) ?lines1)"
    unfolding p_eq by (rule insert_position_loop_bounds) simp
  with a_le len1 len2 have pb: "a + 2 \<le> p" "p \<le> length lines2" by auto
  have c1: "a < n \<and> n < e \<and> e \<le> length lines2 \<and> is_next_line (lines2 ! n)
            \<and> (\<forall>j. a < j \<and> j < n \<longrightarrow> \<not> is_next_line (lines2 ! j))
          \<longrightarrow> p = n"
    using insert_position_cases [of a n lines2] by (auto simp: p_def)
  have c2: "a < m \<and> m < e \<and> e \<le> length lines2 \<and> is_init_line (lines2 ! m)
            \<and> (\<forall>j. a < j \<and> j < e \<longrightarrow> \<not> is_next_line (lines2 ! j))
            \<and> (\<forall>j. m < j \<and> j < e \<longrightarrow> \<not> is_init_line (lines2 ! j))
            \<and> (\<forall>j. e \<le> j \<and> j < length lines2
                  \<longrightarrow> \<not> is_next_line (lines2 ! j) \<and> \<not> is_init_line (lines2 ! j))
          \<longrightarrow> p = m + 1"
  proof
    assume h: "a < m \<and> m < e \<and> e \<le> length lines2 \<and> is_init_line (lines2 ! m)
            \<and> (\<forall>j. a < j \<and> j < e \<longrightarrow> \<not> is_next_line (lines2 ! j))
            \<and> (\<forall>j. m < j \<and> j < e \<longrightarrow> \<not> is_init_line (lines2 ! j))
            \<and> (\<forall>j. e \<le> j \<and> j < length lines2
                  \<longrightarrow> \<not> is_next_line (lines2 ! j) \<and> \<not> is_init_line (lines2 ! j))"
    have nn: "\<forall>j. a < j \<and> j < length lines2 \<longrightarrow> \<not> is_next_line (lines2 ! j)"
    proof (intro allI impI)
      fix j assume "a < j \<and> j < length lines2"
      with h show "\<not> is_next_line (lines2 ! j)" by (cases "j < e") auto
    qed
    have ni: "\<forall>j. m < j \<and> j < length lines2 \<longrightarrow> \<not> is_init_line (lines2 ! j)"
    proof (intro allI impI)
      fix j assume "m < j \<and> j < length lines2"
      with h show "\<not> is_init_line (lines2 ! j)" by (cases "j < e") auto
    qed
    from h have "a < m \<and> m < length lines2 \<and> is_init_line (lines2 ! m)" by auto
    with nn ni show "p = m + 1"
      using insert_position_cases [of a _ lines2 m] by (simp add: p_def)
  qed
  have c3: "(\<forall>j. a + 1 < j \<and> j < length lines2
                  \<longrightarrow> \<not> is_next_line (lines2 ! j) \<and> \<not> is_init_line (lines2 ! j))
          \<longrightarrow> p = a + 2"
  proof
    assume h: "\<forall>j. a + 1 < j \<and> j < length lines2
                  \<longrightarrow> \<not> is_next_line (lines2 ! j) \<and> \<not> is_init_line (lines2 ! j)"
    have init: "is_init_line (lines2 ! (a + 1))"
      unfolding at_a1 by (simp add: is_init_line_def init_fault_def)
    then have nn1: "\<not> is_next_line (lines2 ! (a + 1))"
      by (simp add: is_init_line_def is_next_line_def)
    have nn: "\<forall>j. a < j \<and> j < length lines2 \<longrightarrow> \<not> is_next_line (lines2 ! j)"
    proof (intro allI impI)
      fix j assume "a < j \<and> j < length lines2"
      with h nn1 show "\<not> is_next_line (lines2 ! j)" by (cases "j = a + 1") auto
    qed
    have "a < a + 1 \<and> a + 1 < length lines2" using a_le len1 len2 by simp
    with nn h init have "p = (a + 1) + 1"
      using insert_position_cases [of a _ lines2 "a + 1"] by (simp add: p_def)
    then show "p = a + 2" by simp
  qed
  show "\<exists>a lines2 p.
      a = (if v < a0 then a0 + 1 else a0)
      \<and> lines2 = list_insert (a + 1) init_fault
                    (list_insert (v + 1) (fault_mode_decl fs) (splitlines module_text))
      \<and> lines2 ! a = splitlines module_text ! a0 \<and> lines2 ! (a + 1) = init_fault
      \<and> p = find_insert_position_for_next_fault_mode lines2 a
      \<and> a + 2 \<le> p \<and> p \<le> length lines2
      \<and> inject_declarations fs module_text
            = Inr (list_insert p (generate_next_fault_mode fs) lines2)
      \<and> (a < n \<and> n < e \<and> e \<le> length lines2 \<and> is_next_line (lines2 ! n)
            \<and> (\<forall>j. a < j \<and> j < n \<longrightarrow> \<not> is_next_line (lines2 ! j))
          \<longrightarrow> p = n)
      \<and> (a < m \<and> m < e \<and> e \<le> length lines2 \<and> is_init_line (lines2 ! m)
            \<and> (\<forall>j. a < j \<and> j < e \<longrightarrow> \<not> is_next_line (lines2 ! j))
            \<and> (\<forall>j. m < j \<and> j < e \<longrightarrow> \<not> is_init_line (lines2 ! j))
            \<and> (\<forall>j. e \<le> j \<and> j < length lines2
                  \<longrightarrow> \<not> is_next_line (lines2 ! j) \<and> \<not> is_init_line (lines2 ! j))
          \<longrightarrow> p = m + 1)
      \<and> ((\<forall>j. a + 1 < j \<and> j < length lines2
                  \<longrightarrow> \<not> is_next_line (lines2 ! j) \<and> \<not> is_init_line (lines2 ! j))
          \<longrightarrow> p = a + 2)"
    apply (rule exI [of _ a])
    apply (rule exI [of _ lines2])
    apply (rule exI [of _ p])
    apply (intro conjI)
    apply (rule a_def)
    apply (rule lines2_def)
    apply (rule at_a)
    apply (rule at_a1)
    apply (rule p_def)
    apply (rule pb(1))
    apply (rule pb(2))
    apply (rule res)
    apply (rule c1)
    apply (rule c2)
    apply (rule c3)
    done
  show "(\<forall>j. i < j \<and> j < length ls \<longrightarrow> \<not> is_next_line (ls ! j) \<and> \<not> is_init_line (ls ! j))
        \<longrightarrow> find_insert_position_for_next_fault_mode ls i = i + 1"
    using insert_position_cases [of i _ ls] by blast
qed

text \<open>Three modules: one whose ASSIGN section has an initial-value and a next-state line, one
  whose ASSIGN section has only an initial-value line and is followed by a DEFINE section,
  and one whose ASSIGN section is empty.\<close>

theorem next_fault_mode_position_witness:
  "inject_declarations [\<lparr>fault_type = ''stuck-at'', variable = ''a'', fault_value = ''0''\<rparr>]
     ''MODULE m\<newline>VAR\<newline>  a : boolean;\<newline>ASSIGN\<newline>  init(a) := TRUE;\<newline>  next(a) := case TRUE : a; esac;\<newline>''
   = Inr [''MODULE m\<newline>'', ''VAR\<newline>'', ''    fault_mode : {none, stuck_0};\<newline>'',
      ''  a : boolean;\<newline>'', ''ASSIGN\<newline>'', ''    init(fault_mode) := none;\<newline>\<newline>'',
      ''  init(a) := TRUE;\<newline>'',
      ''    next(fault_mode) :=\<newline>        case\<newline>            fault_mode = none :\<newline>                {none, stuck_0};\<newline>            TRUE :\<newline>                fault_mode;\<newline>        esac;\<newline>'',
      ''  next(a) := case TRUE : a; esac;\<newline>'']
   \<and> inject_declarations [\<lparr>fault_type = ''stuck-at'', variable = ''a'', fault_value = ''0''\<rparr>]
     ''MODULE m\<newline>VAR\<newline>  a : boolean;\<newline>ASSIGN\<newline>  init(a) := TRUE;\<newline>DEFINE\<newline>  d := a;\<newline>''
   = Inr [''MODULE m\<newline>'', ''VAR\<newline>'', ''    fault_mode : {none, stuck_0};\<newline>'',
      ''  a : boolean;\<newline>'', ''ASSIGN\<newline>'', ''    init(fault_mode) := none;\<newline>\<newline>'',
      ''  init(a) := TRUE;\<newline>'',
      ''    next(fault_mode) :=\<newline>        case\<newline>            fault_mode = none :\<newline>                {none, stuck_0};\<newline>            TRUE :\<newline>                fault_mode;\<newline>        esac;\<newline>'',
      ''DEFINE\<newline>'', ''  d := a;\<newline>'']
   \<and> inject_declarations [\<lparr>fault_type = ''stuck-at'', variable = ''a'', fault_value = ''0''\<rparr>]
     ''MODULE m\<newline>VAR\<newline>  a : boolean;\<newline>ASSIGN\<newline>''
   = Inr [''MODULE m\<newline>'', ''VAR\<newline>'', ''    fault_mode : {none, stuck_0};\<newline>'',
      ''  a : boolean;\<newline>'', ''ASSIGN\<newline>'', ''    init(fault_mode) := none;\<newline>\<newline>'',
      ''    next(fault_mode) :=\<newline>        case\<newline>            fault_mode = none :\<newline>                {none, stuck_0};\<newline>            TRUE :\<newline>                fault_mode;\<newline>        esac;\<newline>'']"
proof -
  let ?fs = "[\<lparr>fault_type = ''stuck-at'', variable = ''a'', fault_value = ''0''\<rparr>]"
  let ?m1 = "''MODULE m\<newline>VAR\<newline>  a : boolean;\<newline>ASSIGN\<newline>  init(a) := TRUE;\<newline>  next(a) := case TRUE : a; esac;\<newline>''"
  let ?m2 = "''MODULE m\<newline>VAR\<newline>  a : boolean;\<newline>ASSIGN\<newline>  init(a) := TRUE;\<newline>DEFINE\<newline>  d := a;\<newline>''"
  let ?m3 = "''MODULE m\<newline>VAR\<newline>  a : boolean;\<newline>ASSIGN\<newline>''"
  let ?decl = "''    fault_mode : {none, stuck_0};\<newline>''"
  let ?init = "''    init(fault_mode) := none;\<newline>\<newline>''"
  let ?next = "''    next(fault_mode) :=\<newline>        case\<newline>            fault_mode = none :\<newline>                {none, stuck_0};\<newline>            TRUE :\<newline>                fault_mode;\<newline>        esac;\<newline>''"
  let ?l1 = "[''MODULE m\<newline>'', ''VAR\<newline>'', ?decl, ''  a : boolean;\<newline>'', ''ASSIGN\<newline>'', ?init,
      ''  init(a) := TRUE;\<newline>'', ''  next(a) := case TRUE : a; esac;\<newline>'']"
  let ?l2 = "[''MODULE m\<newline>'', ''VAR\<newline>'', ?decl, ''  a : boolean;\<newline>'', ''ASSIGN\<newline>'', ?init,
      ''  init(a) := TRUE;\<newline>'', ''DEFINE\<newline>'', ''  d := a;\<newline>'']"
  let ?l3 = "[''MODULE m\<newline>'', ''VAR\<newline>'', ?decl, ''  a : boolean;\<newline>'', ''ASSIGN\<newline>'', ?init]"
  have d: "fault_mode_decl ?fs = ?decl" by code_simp
  have g: "generate_next_fault_mode ?fs = ?next" by code_simp
  have i: "init_fault = ?init" by code_simp

  have r1: "inject_declarations ?fs ?m1 = Inr (list_insert 7 ?next ?l1)"
  proof -
    have ls: "splitlines ?m1 = [''MODULE m\<newline>'', ''VAR\<newline>'', ''  a : boolean;\<newline>'', ''ASSIGN\<newline>'',
        ''  init(a) := TRUE;\<newline>'', ''  next(a) := case TRUE : a; esac;\<newline>'']"
      by code_simp
    have h1: "first_line_with ''VAR'' (splitlines ?m1) = Some 1" by code_simp
    have h2: "first_line_with ''ASSIGN'' (splitlines ?m1) = Some 3" by code_simp
    from next_fault_mode_position [where fs = ?fs and n = 7 and e = 8 and m = 0, OF h1 h2, THEN conjunct1]
    obtain a lines2 p where a: "a = (if (1::nat) < 3 then 3 + 1 else 3)"
      and l: "lines2 = list_insert (a + 1) init_fault
                    (list_insert (1 + 1) (fault_mode_decl ?fs) (splitlines ?m1))"
      and r: "inject_declarations ?fs ?m1 = Inr (list_insert p (generate_next_fault_mode ?fs) lines2)"
      and c: "a < 7 \<and> (7::nat) < 8 \<and> 8 \<le> length lines2 \<and> is_next_line (lines2 ! 7)
            \<and> (\<forall>j. a < j \<and> j < 7 \<longrightarrow> \<not> is_next_line (lines2 ! j))
          \<longrightarrow> p = 7"
      by (elim exE conjE) (rule that, assumption+)
    from a have a4: "a = 4" by simp
    have l': "lines2 = ?l1"
      unfolding l a4 ls d i by (simp add: list_insert_def)
    have q: "\<forall>j::nat. 4 < j \<and> j < 7 \<longrightarrow> \<not> is_next_line (?l1 ! j)"
    proof (intro allI impI)
      fix j :: nat assume "4 < j \<and> j < 7"
      then have "j = 5 \<or> j = 6" by arith
      then show "\<not> is_next_line (?l1 ! j)" by (auto simp: is_next_line_def)
    qed
    have "is_next_line (?l1 ! 7)" by (simp add: is_next_line_def)
    with q c have "p = 7" unfolding l' a4 by simp
    with r show ?thesis unfolding l' g by simp
  qed

  have r2: "inject_declarations ?fs ?m2 = Inr (list_insert 7 ?next ?l2)"
  proof -
    have ls: "splitlines ?m2 = [''MODULE m\<newline>'', ''VAR\<newline>'', ''  a : boolean;\<newline>'', ''ASSIGN\<newline>'',
        ''  init(a) := TRUE;\<newline>'', ''DEFINE\<newline>'', ''  d := a;\<newline>'']"
      by code_simp
    have h1: "first_line_with ''VAR'' (splitlines ?m2) = Some 1" by code_simp
    have h2: "first_line_with ''ASSIGN'' (splitlines ?m2) = Some 3" by code_simp
    from next_fault_mode_position [where fs = ?fs and m = 6 and e = 7 and n = 0, OF h1 h2, THEN conjunct1]
    obtain a lines2 p where a: "a = (if (1::nat) < 3 then 3 + 1 else 3)"
      and l: "lines2 = list_insert (a + 1) init_fault
                    (list_insert (1 + 1) (fault_mode_decl ?fs) (splitlines ?m2))"
      and r: "inject_declarations ?fs ?m2 = Inr (list_insert p (generate_next_fault_mode ?fs) lines2)"
      and c: "a < 6 \<and> (6::nat) < 7 \<and> 7 \<le> length lines2 \<and> is_init_line (lines2 ! 6)
            \<and> (\<forall>j. a < j \<and> j < 7 \<longrightarrow> \<not> is_next_line (lines2 ! j))
            \<and> (\<forall>j. 6 < j \<and> j < 7 \<longrightarrow> \<not> is_init_line (lines2 ! j))
            \<and> (\<forall>j. 7 \<le> j \<and> j < length lines2
                  \<longrightarrow> \<not> is_next_line (lines2 ! j) \<and> \<not> is_init_line (lines2 ! j))
          \<longrightarrow> p = 6 + 1"
      by (elim exE conjE) (rule that, assumption+)
    from a have a4: "a = 4" by simp
    have l': "lines2 = ?l2"
      unfolding l a4 ls d i by (simp add: list_insert_def)
    have q1: "\<forall>j::nat. 4 < j \<and> j < 7 \<longrightarrow> \<not> is_next_line (?l2 ! j)"
    proof (intro allI impI)
      fix j :: nat assume "4 < j \<and> j < 7"
      then have "j = 5 \<or> j = 6" by arith
      then show "\<not> is_next_line (?l2 ! j)" by (auto simp: is_next_line_def)
    qed
    have q2: "\<forall>j::nat. 6 < j \<and> j < 7 \<longrightarrow> \<not> is_init_line (?l2 ! j)"
      by auto
    have q3: "\<forall>j::nat. 7 \<le> j \<and> j < length ?l2
        \<longrightarrow> \<not> is_next_line (?l2 ! j) \<and> \<not> is_init_line (?l2 ! j)"
    proof (intro allI impI)
      fix j :: nat assume "7 \<le> j \<and> j < length ?l2"
      then have "j = 7 \<or> j = 8" by auto
      then show "\<not> is_next_line (?l2 ! j) \<and> \<not> is_init_line (?l2 ! j)"
        by (auto simp: is_next_line_def is_init_line_def)
    qed
    have "is_init_line (?l2 ! 6)" by (simp add: is_init_line_def)
    with q1 q2 q3 c have "p = 7" unfolding l' a4 by simp
    with r show ?thesis unfolding l' g by simp
  qed

  have r3: "inject_declarations ?fs ?m3 = Inr (list_insert 6 ?next ?l3)"
  proof -
    have ls: "splitlines ?m3 = [''MODULE m\<newline>'', ''VAR\<newline>'', ''  a : boolean;\<newline>'', ''ASSIGN\<newline>'']"
      by code_simp
    have h1: "first_line_with ''VAR'' (splitlines ?m3) = Some 1" by code_simp
    have h2: "first_line_with ''ASSIGN'' (splitlines ?m3) = Some 3" by code_simp
    from next_fault_mode_position [where fs = ?fs and m = 0 and e = 0 and n = 0, OF h1 h2, THEN conjunct1]
    obtain a lines2 p where a: "a = (if (1::nat) < 3 then 3 + 1 else 3)"
      and l: "lines2 = list_insert (a + 1) init_fault
                    (list_insert (1 + 1) (fault_mode_decl ?fs) (splitlines ?m3))"
      and r: "inject_declarations ?fs ?m3 = Inr (list_insert p (generate_next_fault_mode ?fs) lines2)"
      and c: "(\<forall>j. a + 1 < j \<and> j < length lines2
                  \<longrightarrow> \<not> is_next_line (lines2 ! j) \<and> \<not> is_init_line (lines2 ! j))
          \<longrightarrow> p = a + 2"
      by (elim exE conjE) (rule that, assumption+)
    from a have a4: "a = 4" by simp
    have l': "lines2 = ?l3"
      unfolding l a4 ls d i by (simp add: list_insert_def)
    have "\<forall>j. a + 1 < j \<and> j < length lines2
        \<longrightarrow> \<not> is_next_line (lines2 ! j) \<and> \<not> is_init_line (lines2 ! j)"
      unfolding l' a4 by auto
    with c have "p = a + 2" by blast
    with a4 have "p = 6" by simp
    with r show ?thesis unfolding l' g by simp
  qed
  from r1 r2 r3 show ?thesis by (simp add: list_insert_def)
qed

text \<open>A module whose ASSIGN section groups the assignments by variable: the next-state
  assignment of the fault mode lands before \<open>next(a)\<close> and so before the initial-value
  assignment of \<open>b\<close>, not after it.\<close>

theorem insert_position_init_after_next_counterexample:
  "inject_declarations [\<lparr>fault_type = ''stuck-at'', variable = ''a'', fault_value = ''0''\<rparr>]
     ''MODULE m\<newline>VAR\<newline>  a : boolean;\<newline>  b : boolean;\<newline>ASSIGN\<newline>  init(a) := TRUE;\<newline>  next(a) := case TRUE : a; esac;\<newline>  init(b) := FALSE;\<newline>''
   = Inr [''MODULE m\<newline>'', ''VAR\<newline>'', ''    fault_mode : {none, stuck_0};\<newline>'',
      ''  a : boolean;\<newline>'', ''  b : boolean;\<newline>'', ''ASSIGN\<newline>'',
      ''    init(fault_mode) := none;\<newline>\<newline>'', ''  init(a) := TRUE;\<newline>'',
      ''    next(fault_mode) :=\<newline>        case\<newline>            fault_mode = none :\<newline>                {none, stuck_0};\<newline>            TRUE :\<newline>                fault_mode;\<newline>        esac;\<newline>'',
      ''  next(a) := case TRUE : a; esac;\<newline>'', ''  init(b) := FALSE;\<newline>'']"
  by code_simp

text \<open>A module whose ASSIGN section has no next-state line and is followed by a TRANS
  section that mentions \<open>next(\<close>: the scan goes on past the ASSIGN section.\<close>

lemma next_fault_mode_later_section_example:
  "inject_declarations [\<lparr>fault_type = ''stuck-at'', variable = ''y'', fault_value = ''0''\<rparr>]
     ''MODULE m\<newline>VAR\<newline>  y : boolean;\<newline>ASSIGN\<newline>  init(y) := TRUE;\<newline>TRANS\<newline>  next(y) = !y;\<newline>''
   = Inr [''MODULE m\<newline>'', ''VAR\<newline>'', ''    fault_mode : {none, stuck_0};\<newline>'',
      ''  y : boolean;\<newline>'', ''ASSIGN\<newline>'', ''    init(fault_mode) := none;\<newline>\<newline>'',
      ''  init(y) := TRUE;\<newline>'', ''TRANS\<newline>'',
      ''    next(fault_mode) :=\<newline>        case\<newline>            fault_mode = none :\<newline>                {none, stuck_0};\<newline>            TRUE :\<newline>                fault_mode;\<newline>        esac;\<newline>'',
      ''  next(y) = !y;\<newline>'']"
  by code_simp

section \<open>Guard Protector\<close>







text \<open>A branch that mentions \<open>!request_toggle\<close> in its condition only and keeps the toggle:
  the test looks at the whole line, so this branch is guarded as well.\<close>

lemma protect_toggle_condition_only_example:
  "protect_toggle_logic ''ASSIGN\<newline>  next(request_toggle) := case\<newline>    state = receiving : !request_toggle;\<newline>    !request_toggle & ready : request_toggle;\<newline>    TRUE : request_toggle;\<newline>  esac;\<newline>''
   = ''ASSIGN\<newline>  next(request_toggle) := case\<newline>        fault_mode = none &\<newline>        state = receiving : !request_toggle;\<newline>        fault_mode = none &\<newline>        !request_toggle & ready : request_toggle;\<newline>    TRUE : request_toggle;\<newline>  \<newline>    esac;\<newline>''"
  by code_simp

end
